theory Spec2Isabelle
  imports Main "HOL-Library.Word"
begin

section \<open>Strings of the Go standard library\<close>

text \<open>
  A Go string is a sequence of bytes; it is modelled as \<^typ>\<open>string\<close>. A rune is a signed
  32-bit code point; runes and byte values are modelled as \<^typ>\<open>int\<close>. The functions of the
  packages \<^verbatim>\<open>strings\<close>, \<^verbatim>\<open>unicode\<close> and \<^verbatim>\<open>unicode/utf8\<close> that the program calls are
  written out here as the library computes them, over the UTF-8 decoding of the text. The
  case tables of Unicode are not part of the program: they are taken as a parameter.
\<close>

definition HasPrefix :: "string \<Rightarrow> string \<Rightarrow> bool" where
  "HasPrefix s pre = (take (length pre) s = pre)"

fun Contains :: "string \<Rightarrow> string \<Rightarrow> bool" where
  "Contains [] substr = (substr = [])"
| "Contains (c # cs) substr = (HasPrefix (c # cs) substr \<or> Contains cs substr)"

definition newline :: char where
  "newline = CHR 0x0A"

text \<open>\<^verbatim>\<open>strings.Split(s, "\n")\<close>: the pieces between the separators, always at least one.\<close>

fun Split :: "string \<Rightarrow> char \<Rightarrow> string list" where
  "Split [] sep = [[]]"
| "Split (c # cs) sep =
     (if c = sep then [] # Split cs sep
      else (case Split cs sep of
              [] \<Rightarrow> [[c]]
            | piece # pieces \<Rightarrow> (c # piece) # pieces))"

fun Join :: "'a list list \<Rightarrow> 'a list \<Rightarrow> 'a list" where
  "Join [] sep = []"
| "Join [e] sep = e"
| "Join (e # es) sep = e @ sep @ Join es sep"

subsection \<open>UTF-8\<close>

definition byte :: "char \<Rightarrow> int" where
  "byte c = of_char c"

text \<open>No byte of the text is \<^verbatim>\<open>utf8.RuneSelf\<close> or above.\<close>

definition isASCII :: "string \<Rightarrow> bool" where
  "isASCII s = list_all (\<lambda>c. byte c < 0x80) s"

definition RuneError :: int where
  "RuneError = 0xFFFD"

definition continues :: "int \<Rightarrow> int \<Rightarrow> char \<Rightarrow> bool" where
  "continues lo hi c = (lo \<le> byte c \<and> byte c \<le> hi)"

text \<open>\<^verbatim>\<open>utf8.DecodeRuneInString\<close>: the first rune of the text and the number of bytes it
  takes. A byte that starts no well-formed encoding is \<open>RuneError\<close> of width 1.\<close>

fun DecodeRune :: "string \<Rightarrow> int \<times> nat" where
  "DecodeRune [] = (RuneError, 0)"
| "DecodeRune (c0 # rest) =
     (let b0 = byte c0
      in if b0 < 0x80 then (b0, 1)
         else if b0 < 0xC2 \<or> 0xF4 < b0 then (RuneError, 1)
         else if b0 < 0xE0 then
           (case rest of
              c1 # _ \<Rightarrow>
                if continues 0x80 0xBF c1
                then ((b0 mod 0x20) * 0x40 + byte c1 mod 0x40, 2)
                else (RuneError, 1)
            | _ \<Rightarrow> (RuneError, 1))
         else if b0 < 0xF0 then
           (case rest of
              c1 # c2 # _ \<Rightarrow>
                if continues (if b0 = 0xE0 then 0xA0 else 0x80) (if b0 = 0xED then 0x9F else 0xBF) c1 \<and>
                   continues 0x80 0xBF c2
                then (((b0 mod 0x10) * 0x40 + byte c1 mod 0x40) * 0x40 + byte c2 mod 0x40, 3)
                else (RuneError, 1)
            | _ \<Rightarrow> (RuneError, 1))
         else
           (case rest of
              c1 # c2 # c3 # _ \<Rightarrow>
                if continues (if b0 = 0xF0 then 0x90 else 0x80) (if b0 = 0xF4 then 0x8F else 0xBF) c1 \<and>
                   continues 0x80 0xBF c2 \<and> continues 0x80 0xBF c3
                then ((((b0 mod 0x08) * 0x40 + byte c1 mod 0x40) * 0x40 + byte c2 mod 0x40) * 0x40
                        + byte c3 mod 0x40, 4)
                else (RuneError, 1)
            | _ \<Rightarrow> (RuneError, 1)))"

text \<open>The runes that a \<^verbatim>\<open>range\<close> over the text yields, each with the bytes it was read
  from.\<close>

fun runes :: "string \<Rightarrow> (int \<times> string) list" where
  "runes [] = []"
| "runes (c # cs) =
     (case DecodeRune (c # cs) of
        (r, width) \<Rightarrow> (r, c # take (width - 1) cs) # runes (drop (width - 1) cs))"

definition text_of :: "(int \<times> string) list \<Rightarrow> string" where
  "text_of rs = concat (map snd rs)"

text \<open>\<^verbatim>\<open>utf8.AppendRune\<close>: a negative value, a surrogate or a value beyond U+10FFFF is
  written as \<open>RuneError\<close>.\<close>

definition EncodeRune :: "int \<Rightarrow> string" where
  "EncodeRune r =
     (if r < 0 \<or> 0x10FFFF < r \<or> (0xD800 \<le> r \<and> r \<le> 0xDFFF) then [CHR 0xEF, CHR 0xBF, CHR 0xBD]
      else if r < 0x80 then [char_of r]
      else if r < 0x800 then [char_of (0xC0 + r div 0x40), char_of (0x80 + r mod 0x40)]
      else if r < 0x10000 then
        [char_of (0xE0 + r div 0x1000), char_of (0x80 + (r div 0x40) mod 0x40),
         char_of (0x80 + r mod 0x40)]
      else
        [char_of (0xF0 + r div 0x40000), char_of (0x80 + (r div 0x1000) mod 0x40),
         char_of (0x80 + (r div 0x40) mod 0x40), char_of (0x80 + r mod 0x40)])"

subsection \<open>Case\<close>

text \<open>The tables of package \<^verbatim>\<open>unicode\<close> that the program depends on: \<open>LowerCase\<close> is
  \<^verbatim>\<open>unicode.ToLower\<close> on the runes beyond ASCII; \<open>SimpleFold lo hi\<close>, for \<open>lo < hi\<close>, tells
  whether the loop of \<^verbatim>\<open>strings.EqualFold\<close> over \<^verbatim>\<open>unicode.SimpleFold\<close>, started at \<open>lo\<close>,
  reaches \<open>hi\<close>, that is whether the two runes are the same under simple case folding.\<close>

record Unicode =
  LowerCase :: "int \<Rightarrow> int"
  SimpleFold :: "int \<Rightarrow> int \<Rightarrow> bool"

text \<open>\<^verbatim>\<open>unicode.ToLower\<close>: the ASCII range is written out in the library.\<close>

definition unicode_ToLower :: "Unicode \<Rightarrow> int \<Rightarrow> int" where
  "unicode_ToLower U r =
     (if r < 0x80 then (if 0x41 \<le> r \<and> r \<le> 0x5A then r + 0x20 else r) else LowerCase U r)"

text \<open>\<^verbatim>\<open>strings.Map\<close> reads the text rune by rune and writes each mapped rune anew, a
  byte that is not well-formed as the image of \<open>RuneError\<close>; a rune mapped to a negative
  value is dropped.\<close>

definition Map :: "(int \<Rightarrow> int) \<Rightarrow> string \<Rightarrow> string" where
  "Map mapping s =
     concat (map (\<lambda>(c, bytes). if 0 \<le> mapping c then EncodeRune (mapping c) else []) (runes s))"

text \<open>\<^verbatim>\<open>strings.ToLower\<close>: bytewise on a text that is all ASCII, else \<^verbatim>\<open>strings.Map\<close> of
  \<^verbatim>\<open>unicode.ToLower\<close>.\<close>

definition ToLower :: "Unicode \<Rightarrow> string \<Rightarrow> string" where
  "ToLower U s =
     (if isASCII s
      then map (\<lambda>c. if 0x41 \<le> byte c \<and> byte c \<le> 0x5A then char_of (byte c + 0x20) else c) s
      else Map (unicode_ToLower U) s)"

text \<open>One step of \<^verbatim>\<open>strings.EqualFold\<close>: two runes are equal, or, both in ASCII, the two
  cases of a letter, or else the same under simple folding.\<close>

definition equal_fold :: "Unicode \<Rightarrow> int \<Rightarrow> int \<Rightarrow> bool" where
  "equal_fold U sr tr =
     (sr = tr \<or>
      (let lo = min sr tr; hi = max sr tr
       in if hi < 0x80 then 0x41 \<le> lo \<and> lo \<le> 0x5A \<and> hi = lo + 0x20
          else SimpleFold U lo hi))"

text \<open>\<^verbatim>\<open>strings.EqualFold\<close>: the two texts have as many runes, equal one by one.\<close>

definition EqualFold :: "Unicode \<Rightarrow> string \<Rightarrow> string \<Rightarrow> bool" where
  "EqualFold U s t = list_all2 (equal_fold U) (map fst (runes s)) (map fst (runes t))"

subsection \<open>White space\<close>

text \<open>The table \<^verbatim>\<open>asciiSpace\<close> of package \<^verbatim>\<open>strings\<close>: tab, line feed, vertical tab, form
  feed, carriage return and space.\<close>

definition asciiSpace :: "char \<Rightarrow> bool" where
  "asciiSpace c = (byte c \<in> set [0x09, 0x0A, 0x0B, 0x0C, 0x0D, 0x20])"

text \<open>\<^verbatim>\<open>unicode.IsSpace\<close>: in Latin-1 the six of ASCII, U+0085 and U+00A0; beyond it the
  runes of the property White_Space.\<close>

definition IsSpace :: "int \<Rightarrow> bool" where
  "IsSpace r =
     (if r \<le> 0xFF then r \<in> set [0x09, 0x0A, 0x0B, 0x0C, 0x0D, 0x20, 0x85, 0xA0]
      else r = 0x1680 \<or> (0x2000 \<le> r \<and> r \<le> 0x200A) \<or> r = 0x2028 \<or> r = 0x2029 \<or>
           r = 0x202F \<or> r = 0x205F \<or> r = 0x3000)"

text \<open>The maximal runs of items that are not white space; \<open>cur\<close> is the run being read,
  reversed.\<close>

fun fields_acc :: "('a \<Rightarrow> bool) \<Rightarrow> 'a list \<Rightarrow> 'a list \<Rightarrow> 'a list list" where
  "fields_acc sp cur [] = (if cur = [] then [] else [rev cur])"
| "fields_acc sp cur (c # cs) =
     (if sp c then (if cur = [] then fields_acc sp [] cs else rev cur # fields_acc sp [] cs)
      else fields_acc sp (c # cur) cs)"

text \<open>\<^verbatim>\<open>strings.FieldsFunc\<close> cuts the text where a rune satisfies the predicate;
  \<^verbatim>\<open>strings.Fields\<close> works on the bytes of a text that is all ASCII and is
  \<^verbatim>\<open>FieldsFunc(s, unicode.IsSpace)\<close> otherwise.\<close>

definition FieldsFunc :: "string \<Rightarrow> (int \<Rightarrow> bool) \<Rightarrow> string list" where
  "FieldsFunc s f = map text_of (fields_acc (\<lambda>(r, bytes). f r) [] (runes s))"

definition Fields :: "string \<Rightarrow> string list" where
  "Fields s = (if isASCII s then fields_acc asciiSpace [] s else FieldsFunc s IsSpace)"

text \<open>An excerpt of the tables of Unicode to run the program with: the capital I with dot
  (U+0130) is lowered to i and the Kelvin sign (U+212A) to k; under simple folding the
  Kelvin sign goes with K and k, and the long s (U+017F) with S and s.\<close>

definition unicode_excerpt :: Unicode where
  "unicode_excerpt =
     \<lparr>LowerCase = (\<lambda>r. if r = 0x130 then 0x69 else if r = 0x212A then 0x6B else r),
      SimpleFold = (\<lambda>lo hi. (lo, hi) \<in> set [(0x4B, 0x212A), (0x6B, 0x212A),
                                               (0x53, 0x17F), (0x73, 0x17F)])\<rparr>"

section \<open>Dispositions\<close>

text \<open>\<^verbatim>\<open>pullRequestStatus\<close> is a byte enumerated with \<^verbatim>\<open>iota\<close>; the values are compared
  by their number.\<close>

datatype pullRequestStatus =
  prFailed | prSkipped | prCleanup | prSmall | prRevert | prBot | prLinked

fun status_byte :: "pullRequestStatus \<Rightarrow> nat" where
  "status_byte prFailed = 0"
| "status_byte prSkipped = 1"
| "status_byte prCleanup = 2"
| "status_byte prSmall = 3"
| "status_byte prRevert = 4"
| "status_byte prBot = 5"
| "status_byte prLinked = 6"

instantiation pullRequestStatus :: linorder
begin

definition less_eq_pullRequestStatus :: "pullRequestStatus \<Rightarrow> pullRequestStatus \<Rightarrow> bool" where
  "less_eq_pullRequestStatus a b = (status_byte a \<le> status_byte b)"

definition less_pullRequestStatus :: "pullRequestStatus \<Rightarrow> pullRequestStatus \<Rightarrow> bool" where
  "less_pullRequestStatus a b = (status_byte a < status_byte b)"

instance
proof
  fix x y z :: pullRequestStatus
  show "(x < y) = (x \<le> y \<and> \<not> y \<le> x)"
    by (auto simp: less_eq_pullRequestStatus_def less_pullRequestStatus_def)
  show "x \<le> x"
    by (simp add: less_eq_pullRequestStatus_def)
  show "x \<le> y \<Longrightarrow> y \<le> z \<Longrightarrow> x \<le> z"
    by (simp add: less_eq_pullRequestStatus_def)
  show "x \<le> y \<Longrightarrow> y \<le> x \<Longrightarrow> x = y"
    by (cases x; cases y; simp add: less_eq_pullRequestStatus_def)
  show "x \<le> y \<or> y \<le> x"
    by (auto simp: less_eq_pullRequestStatus_def)
qed

end

section \<open>The commit-message classifier\<close>

definition verbs :: "string list" where
  "verbs = [''close'', ''closes'', ''closed'', ''fix'', ''fixes'', ''fixed'',
            ''resolve'', ''resolves'', ''resolved'', ''updates'', ''for'']"

text \<open>The inner loop of \<^verbatim>\<open>checkCommitMessage\<close> over the verbs, for one lowered line:
  \<open>True\<close> when the loop returns \<^verbatim>\<open>prLinked\<close>.\<close>

fun verb_loop :: "string \<Rightarrow> string list \<Rightarrow> bool" where
  "verb_loop lower [] = False"
| "verb_loop lower (verb # vs) =
     (if \<not> HasPrefix lower verb then verb_loop lower vs
      else if Contains lower ''#'' \<or> Contains lower ''github.com'' then True
      else verb_loop lower vs)"

text \<open>The outer loop over the lines, with the index of the line: \<open>Some\<close> when the loop
  returns from the function, \<open>None\<close> when it runs to its end.\<close>

fun line_loop :: "Unicode \<Rightarrow> nat \<Rightarrow> string list \<Rightarrow> pullRequestStatus option" where
  "line_loop U idx [] = None"
| "line_loop U idx (line # lines) =
     (if idx = 0 \<and> HasPrefix line ''Revert'' then Some prRevert
      else if verb_loop (ToLower U line) verbs then Some prLinked
      else line_loop U (idx + 1) lines)"

text \<open>\<^verbatim>\<open>checkCommitMessage\<close>. Its calls of \<^verbatim>\<open>logf\<close> only write to the log (the getters
  they use are safe on nil) and are left out.\<close>

definition checkCommitMessage :: "Unicode \<Rightarrow> string \<Rightarrow> pullRequestStatus" where
  "checkCommitMessage U message =
     (case line_loop U 0 (Split message newline) of
        Some disp \<Rightarrow> disp
      | None \<Rightarrow>
          if Contains message ''skip-issuebot'' then prSkipped
          else if Contains message ''#cleanup'' then prCleanup
          else prFailed)"

text \<open>The words of the specification: the first line starts with the word Revert; a line
  starts with a linking verb, whatever its case, and holds a marker.\<close>

definition first_line_revert :: "string \<Rightarrow> bool" where
  "first_line_revert message =
     (case Split message newline of [] \<Rightarrow> False | line # _ \<Rightarrow> HasPrefix line ''Revert'')"

definition linking_line :: "Unicode \<Rightarrow> string \<Rightarrow> bool" where
  "linking_line U line =
     ((\<exists>verb \<in> set verbs. HasPrefix (ToLower U line) verb) \<and>
      (Contains (ToLower U line) ''#'' \<or> Contains (ToLower U line) ''github.com''))"

section \<open>Errors that end an evaluation\<close>

text \<open>A nil pointer dereference and an index out of range are run-time panics;
  \<^verbatim>\<open>log.Fatalf\<close> ends the process.\<close>

datatype error = NilPointer | IndexOutOfRange | LogFatal

section \<open>The bot-author classifier\<close>

record CommitAuthor =
  Name :: "string option"
  Email :: "string option"

definition GetName :: "CommitAuthor \<Rightarrow> string" where
  "GetName u = (case Name u of None \<Rightarrow> [] | Some name \<Rightarrow> name)"

text \<open>A compiled regular expression is taken as its \<^verbatim>\<open>FindStringSubmatch\<close>: \<open>None\<close> when
  the text has no match, else the matched text followed by the text of each capturing group,
  so a pattern without a group yields a list of length one.\<close>

type_synonym Regexp = "string \<Rightarrow> string list option"

text \<open>\<^verbatim>\<open>isAutomationBotAuthor\<close>, with the global \<^verbatim>\<open>botAuthorRE\<close> as its first argument.
  The code reads \<^verbatim>\<open>m[1]\<close> whenever \<^verbatim>\<open>len(m) > 0\<close>.\<close>

definition isAutomationBotAuthor :: "Unicode \<Rightarrow> Regexp option \<Rightarrow> CommitAuthor option \<Rightarrow> error + bool" where
  "isAutomationBotAuthor U botAuthorRE u =
     (case botAuthorRE of
        None \<Rightarrow> Inr False
      | Some re \<Rightarrow>
          (case u of
             None \<Rightarrow> Inr False
           | Some a \<Rightarrow>
               (case Name a of
                  None \<Rightarrow> Inr False
                | Some name \<Rightarrow>
                    (case Email a of
                       None \<Rightarrow> Inr False
                     | Some email \<Rightarrow>
                         (case re email of
                            None \<Rightarrow> Inr False
                          | Some m \<Rightarrow>
                              if 0 < length m then
                                (if 1 < length m
                                 then Inr (EqualFold U (Join (Fields name) ''-'') (m ! 1))
                                 else Inl IndexOutOfRange)
                              else Inr True)))))"

text \<open>The words of the specification, on the runes of a name: every run of white space
  becomes one hyphen. The flag tells whether the item before was white space.\<close>

fun collapse_from :: "('a \<Rightarrow> bool) \<Rightarrow> 'a \<Rightarrow> bool \<Rightarrow> 'a list \<Rightarrow> 'a list" where
  "collapse_from sp hy in_run [] = []"
| "collapse_from sp hy in_run (c # cs) =
     (if sp c
      then (if in_run then collapse_from sp hy True cs else hy # collapse_from sp hy True cs)
      else c # collapse_from sp hy False cs)"

definition space_rune :: "int \<times> string \<Rightarrow> bool" where
  "space_rune = (\<lambda>(r, bytes). IsSpace r)"

definition hyphen :: "int \<times> string" where
  "hyphen = (0x2D, ''-'')"

definition collapse_ws :: "string \<Rightarrow> string" where
  "collapse_ws s = text_of (collapse_from space_rune hyphen False (runes s))"

text \<open>The same after the white space at the two ends of the name is dropped.\<close>

definition rtrim :: "('a \<Rightarrow> bool) \<Rightarrow> 'a list \<Rightarrow> 'a list" where
  "rtrim sp s = rev (dropWhile sp (rev s))"

definition trim :: "('a \<Rightarrow> bool) \<Rightarrow> 'a list \<Rightarrow> 'a list" where
  "trim sp s = dropWhile sp (rtrim sp s)"

definition trim_collapse_ws :: "string \<Rightarrow> string" where
  "trim_collapse_ws s = text_of (collapse_from space_rune hyphen False (trim space_rune (runes s)))"

text \<open>Two patterns to run the classifier on. The first is the one of the repository's test,
  \<^verbatim>\<open>^noreply\+([-\w]+)@example.com$\<close>, whose dot stands for any rune but a line feed;
  the second is \<^verbatim>\<open>^noreply@example\.com$\<close>, which has no group.\<close>

definition is_word :: "char \<Rightarrow> bool" where
  "is_word c =
     (c = CHR ''-'' \<or> c = CHR ''_'' \<or> (0x30 \<le> byte c \<and> byte c \<le> 0x39) \<or>
      (0x41 \<le> byte c \<and> byte c \<le> 0x5A) \<or> (0x61 \<le> byte c \<and> byte c \<le> 0x7A))"

definition test_botAuthorRE :: Regexp where
  "test_botAuthorRE email =
     (if HasPrefix email ''noreply+'' then
        (let rest = drop (length ''noreply+'') email;
             g = takeWhile is_word rest;
             tl = dropWhile is_word rest;
             dot = drop (length ''@example'') tl
         in if g \<noteq> [] \<and> HasPrefix tl ''@example'' \<and> dot \<noteq> [] \<and>
               fst (DecodeRune dot) \<noteq> 0x0A \<and> drop (snd (DecodeRune dot)) dot = ''com''
            then Some [email, g] else None)
      else None)"

definition plain_botAuthorRE :: Regexp where
  "plain_botAuthorRE email = (if email = ''noreply@example.com'' then Some [email] else None)"

section \<open>The debounce cache\<close>

text \<open>A time is a number of nanoseconds. \<^verbatim>\<open>Time.Sub\<close> yields a 64-bit duration and
  saturates at its ends.\<close>

type_synonym Time = int

definition maxDuration :: int where
  "maxDuration = 2 ^ 63 - 1"

definition minDuration :: int where
  "minDuration = - (2 ^ 63)"

definition Sub :: "Time \<Rightarrow> Time \<Rightarrow> int" where
  "Sub t u = max minDuration (min maxDuration (t - u))"

definition debounceInterval :: int where
  "debounceInterval = 5 * 1000000000"

text \<open>The loop that cleans the cache deletes every entry whose age exceeds the interval;
  the order in which the map is ranged over does not matter.\<close>

definition clean_stale :: "Time \<Rightarrow> (string \<rightharpoonup> Time) \<Rightarrow> (string \<rightharpoonup> Time)" where
  "clean_stale now m =
     (\<lambda>old. case m old of
               None \<Rightarrow> None
             | Some then' \<Rightarrow> if Sub now then' > debounceInterval then None else Some then')"

text \<open>\<^verbatim>\<open>debounce\<close>, on the key it formats from the pull request, with the reading of the
  clock and the cache as arguments; it returns its result and the cache it leaves. The mutex
  makes the call atomic.\<close>

definition debounce :: "Time \<Rightarrow> (string \<rightharpoonup> Time) \<Rightarrow> string \<Rightarrow> bool \<times> (string \<rightharpoonup> Time)" where
  "debounce now m key =
     (let m1 = clean_stale now m
      in case m1 key of
           None \<Rightarrow> (False, m1(key \<mapsto> now))
         | Some when \<Rightarrow> (Sub now when \<le> debounceInterval, m1))"

section \<open>Numbers as text\<close>

definition digit_char :: "nat \<Rightarrow> char" where
  "digit_char d = ''0123456789'' ! (d mod 10)"

function nat_digits :: "nat \<Rightarrow> string" where
  "nat_digits n = (if n < 10 then [digit_char n] else nat_digits (n div 10) @ [digit_char n])"
  by pat_completeness auto
termination
  by (relation "measure id") auto

declare nat_digits.simps [simp del]

text \<open>The verb \<^verbatim>\<open>%d\<close> of \<^verbatim>\<open>fmt.Sprintf\<close>.\<close>

definition Itoa :: "int \<Rightarrow> string" where
  "Itoa i = (if i < 0 then CHR ''-'' # nat_digits (nat (- i)) else nat_digits (nat i))"

definition isDigit :: "char \<Rightarrow> bool" where
  "isDigit c = (c \<in> set ''0123456789'')"

fun digits_value :: "nat \<Rightarrow> string \<Rightarrow> nat" where
  "digits_value acc [] = acc"
| "digits_value acc (c # cs) = digits_value (acc * 10 + (of_char c - 48)) cs"

text \<open>\<^verbatim>\<open>strconv.Atoi\<close>, its error dropped as the caller drops it: 0 for a text that is not a
  number, the nearest 64-bit value for a number out of range.\<close>

definition Atoi :: "string \<Rightarrow> int" where
  "Atoi s =
     (let neg = (take 1 s = ''-'');
          ds = (if take 1 s = ''-'' \<or> take 1 s = ''+'' then drop 1 s else s)
      in if ds = [] \<or> \<not> list_all isDigit ds then 0
         else if neg then max (- 9223372036854775808) (- int (digits_value 0 ds))
         else min 9223372036854775807 (int (digits_value 0 ds)))"

section \<open>The records of the GitHub client\<close>

text \<open>A pointer field is an option. Where the program only ever follows a chain of pointers
  as a whole, the chain is one field: \<open>repo_Owner_Login\<close> is \<open>None\<close> when
  \<^verbatim>\<open>repo.Owner\<close> or its \<^verbatim>\<open>Login\<close> is nil, \<open>rc_Stats_Total\<close> when \<^verbatim>\<open>Stats\<close> or its
  \<^verbatim>\<open>Total\<close> is. The program's \<^verbatim>\<open>pullRequest\<close> bundles the repository and the pull
  request.\<close>

record pullRequest =
  repo_FullName :: "string option"
  repo_Owner_Login :: "string option"
  repo_Name :: "string option"
  pr_Number :: "int option"
  pr_User_Login :: "string option"
  pr_Head_SHA :: "string option"

record Commit =
  Message :: "string option"
  Author :: "CommitAuthor option"

record RepositoryCommit =
  rc_SHA :: "string option"
  rc_Commit :: "Commit option"
  rc_Stats_Total :: "64 word option"

record Issue =
  issue_Title :: "string option"
  issue_Number :: "int option"

record IssueComment =
  comment_Body :: "string option"

record IssueRequest =
  req_Title :: string
  req_Assignee :: string
  req_Body :: string
  req_Labels :: "string list"

record RepoStatus =
  status_Context :: string
  status_State :: string
  status_Description :: "string option"

text \<open>The getters of the client return the zero value for a nil pointer.\<close>

definition GetString :: "string option \<Rightarrow> string" where
  "GetString f = (case f of None \<Rightarrow> [] | Some s \<Rightarrow> s)"

definition GetInt :: "int option \<Rightarrow> int" where
  "GetInt f = (case f of None \<Rightarrow> 0 | Some i \<Rightarrow> i)"

definition GetTotal :: "RepositoryCommit \<Rightarrow> 64 word" where
  "GetTotal rc = (case rc_Stats_Total rc of None \<Rightarrow> 0 | Some t \<Rightarrow> t)"

text \<open>The remote service, as the answers it gives to the calls of one evaluation. A call
  fails with a message. \<open>ListCommits\<close> takes the owner, the repository, the number of the
  pull request and the page, and answers with the commits of the page and the next page;
  the label and the state that \<open>ListByRepo\<close> filters by are fixed, its third argument is the
  assignee. Within one evaluation every call that reads comes before every call that
  writes, so the answers do not depend on the calls made before.\<close>

record GitHub =
  ListCommits :: "string \<Rightarrow> string \<Rightarrow> int \<Rightarrow> int \<Rightarrow> string + (RepositoryCommit list \<times> int)"
  GetCommit :: "string \<Rightarrow> string \<Rightarrow> string \<Rightarrow> string + RepositoryCommit"
  ListByRepo :: "string \<Rightarrow> string \<Rightarrow> string \<Rightarrow> string + Issue list"
  ListComments :: "string \<Rightarrow> string \<Rightarrow> int \<Rightarrow> string + IssueComment list"
  Create :: "string \<Rightarrow> string \<Rightarrow> IssueRequest \<Rightarrow> string + Issue"
  CreateComment :: "string \<Rightarrow> string \<Rightarrow> int \<Rightarrow> string \<Rightarrow> string + unit"
  CreateStatus :: "string \<Rightarrow> string \<Rightarrow> string \<Rightarrow> RepoStatus \<Rightarrow> string + unit"

text \<open>The calls that an evaluation has made, in their order; those of the scan carry their
  answer.\<close>

datatype event =
    EvListCommits int "RepositoryCommit list" int
  | EvGetCommit string RepositoryCommit
  | EvListByRepo string
  | EvListComments int
  | EvCreate IssueRequest
  | EvCreateComment int string
  | EvCreateStatus string RepoStatus

section \<open>The commit-metadata classifier\<close>

text \<open>\<^verbatim>\<open>checkCommitMetadata\<close>; a panic of \<^verbatim>\<open>isAutomationBotAuthor\<close> passes through it.\<close>

definition checkCommitMetadata :: "Unicode \<Rightarrow> Regexp option \<Rightarrow> RepositoryCommit \<Rightarrow> error + pullRequestStatus" where
  "checkCommitMetadata U botAuthorRE repoCommit =
     (case rc_Commit repoCommit of
        None \<Rightarrow> Inr prFailed
      | Some commit \<Rightarrow>
          (case Author commit of
             None \<Rightarrow> Inr prFailed
           | Some author \<Rightarrow>
               if Contains (GetName author) ''[bot]'' then Inr prBot
               else (case isAutomationBotAuthor U botAuthorRE (Some author) of
                       Inl e \<Rightarrow> Inl e
                     | Inr is_bot \<Rightarrow> if is_bot then Inr prBot else Inr prFailed)))"

section \<open>The stub issues\<close>

definition issuebotStubLabel :: string where
  "issuebotStubLabel = ''issuebot-stub''"

definition issueTitle :: "int \<Rightarrow> string" where
  "issueTitle prNumber = ''Placeholder issue for PR #'' @ Itoa prNumber"

definition issueComment :: "int \<Rightarrow> string" where
  "issueComment issueNumber =
     '':robot: IssueBot here. I noticed none of the commits on this PR has an issue attached. I have filed issue #''
     @ Itoa issueNumber @ '' for you. Please update it at your convenience.''"

text \<open>\<^verbatim>\<open>issueCommentRE\<close> is \<^verbatim>\<open>(?i)IssueBot here\..*I have filed issue #(\d+) for you\<close>.
  Under the flag a letter of the pattern stands for the runes that simple case folding puts
  with it: its two cases and, for s, the long s (U+017F), for k, the Kelvin sign (U+212A).
  \<open>fold_literal\<close> matches a literal so at the start of a text and yields the rest of the
  text; \<open>comment_tail\<close> matches the part from \<^verbatim>\<open>I have filed\<close> on and yields what it matched
  and the digits; \<open>greedy_tail\<close> is \<^verbatim>\<open>.*\<close> followed by that part: the dot does not match a
  line feed, and the longest run it can take is preferred; the match that starts leftmost
  is returned. A literal starts with a byte that no encoding of a rune continues with, so
  matching on the bytes is matching on the runes.\<close>

definition fold_alternatives :: "char \<Rightarrow> string list" where
  "fold_alternatives c =
     (let lower = (if 0x41 \<le> byte c \<and> byte c \<le> 0x5A then byte c + 0x20 else byte c)
      in if 0x61 \<le> lower \<and> lower \<le> 0x7A then
           [[char_of lower], [char_of (lower - 0x20)]] @
           (if lower = 0x73 then [EncodeRune 0x17F]
            else if lower = 0x6B then [EncodeRune 0x212A] else [])
         else [[c]])"

fun fold_literal :: "string \<Rightarrow> string \<Rightarrow> string option" where
  "fold_literal [] s = Some s"
| "fold_literal (c # lit) s =
     (case find (HasPrefix s) (fold_alternatives c) of
        None \<Rightarrow> None
      | Some alt \<Rightarrow> fold_literal lit (drop (length alt) s))"

definition comment_tail :: "string \<Rightarrow> (string \<times> string) option" where
  "comment_tail s =
     (case fold_literal ''I have filed issue #'' s of
        None \<Rightarrow> None
      | Some rest \<Rightarrow>
          (let ds = takeWhile isDigit rest;
               after = dropWhile isDigit rest
           in if ds = [] then None
              else (case fold_literal '' for you'' after of
                      None \<Rightarrow> None
                    | Some rest' \<Rightarrow> Some (take (length s - length rest') s, ds))))"

fun greedy_tail :: "string \<Rightarrow> (string \<times> string) option" where
  "greedy_tail [] = comment_tail []"
| "greedy_tail (c # cs) =
     (if c = newline then comment_tail (c # cs)
      else (case greedy_tail cs of
              Some (matched, ds) \<Rightarrow> Some (c # matched, ds)
            | None \<Rightarrow> comment_tail (c # cs)))"

definition match_here :: "string \<Rightarrow> string list option" where
  "match_here s =
     (case fold_literal ''IssueBot here.'' s of
        None \<Rightarrow> None
      | Some rest \<Rightarrow>
          (case greedy_tail rest of
             Some (matched, ds) \<Rightarrow> Some [take (length s - length rest) s @ matched, ds]
           | None \<Rightarrow> None))"

fun issueCommentRE :: Regexp where
  "issueCommentRE [] = match_here []"
| "issueCommentRE (c # cs) =
     (case match_here (c # cs) of
        Some m \<Rightarrow> Some m
      | None \<Rightarrow> issueCommentRE cs)"

text \<open>\<^verbatim>\<open>checkStubIssue\<close> returns the number of the issue and the error, as the code does,
  and the calls it has made.\<close>

definition checkStubIssue :: "GitHub \<Rightarrow> pullRequest \<Rightarrow> (int \<times> string option) \<times> event list" where
  "checkStubIssue cli p =
     (let owner = GetString (repo_Owner_Login p);
          repoName = GetString (repo_Name p);
          prNumber = GetInt (pr_Number p);
          assignee = GetString (pr_User_Login p)
      in case ListByRepo cli owner repoName assignee of
           Inl err \<Rightarrow> ((0, Some (''list issues: '' @ err)), [EvListByRepo assignee])
         | Inr issues \<Rightarrow>
             (case find (\<lambda>issue. GetString (issue_Title issue) = issueTitle prNumber) issues of
                Some issue \<Rightarrow> ((GetInt (issue_Number issue), None), [EvListByRepo assignee])
              | None \<Rightarrow>
                  (case ListComments cli owner repoName prNumber of
                     Inl err \<Rightarrow>
                       ((0, Some (''list comments: '' @ err)),
                        [EvListByRepo assignee, EvListComments prNumber])
                   | Inr comments \<Rightarrow>
                       (case find (\<lambda>comment. issueCommentRE (GetString (comment_Body comment)) \<noteq> None)
                               comments of
                          Some comment \<Rightarrow>
                            (case issueCommentRE (GetString (comment_Body comment)) of
                               Some m \<Rightarrow>
                                 ((Atoi (m ! 1), None),
                                  [EvListByRepo assignee, EvListComments prNumber])
                             | None \<Rightarrow>
                                 ((0, None), [EvListByRepo assignee, EvListComments prNumber]))
                        | None \<Rightarrow>
                            ((0, None), [EvListByRepo assignee, EvListComments prNumber])))))"

text \<open>\<^verbatim>\<open>createStubIssue\<close>; a failure to add the comment is only logged.\<close>

definition createStubIssue :: "GitHub \<Rightarrow> pullRequest \<Rightarrow> (int \<times> string option) \<times> event list" where
  "createStubIssue cli p =
     (let owner = GetString (repo_Owner_Login p);
          repoName = GetString (repo_Name p);
          prNumber = GetInt (pr_Number p);
          prAuthor = GetString (pr_User_Login p);
          request = \<lparr>req_Title = issueTitle prNumber,
                     req_Assignee = prAuthor,
                     req_Body = ''TODO(@'' @ prAuthor @ ''): Add details about PR #'' @ Itoa prNumber,
                     req_Labels = [issuebotStubLabel]\<rparr>
      in case Create cli owner repoName request of
           Inl err \<Rightarrow> ((0, Some (''creating issue: '' @ err)), [EvCreate request])
         | Inr issue \<Rightarrow>
             (let issueNumber = GetInt (issue_Number issue)
              in ((issueNumber, None),
                  [EvCreate request, EvCreateComment prNumber (issueComment issueNumber)])))"

text \<open>Lines 302 to 307 of \<^verbatim>\<open>checkPullRequest\<close>: the values of \<^verbatim>\<open>issue\<close> and \<^verbatim>\<open>err\<close>
  after them, and the calls made.\<close>

definition find_or_create_stub :: "GitHub \<Rightarrow> pullRequest \<Rightarrow> (int \<times> string option) \<times> event list" where
  "find_or_create_stub cli p =
     (case checkStubIssue cli p of
        ((issue, err), evs) \<Rightarrow>
          if issue > 0 then ((issue, err), evs)
          else (case createStubIssue cli p of
                  ((issue', err'), evs') \<Rightarrow> ((issue', err'), evs @ evs')))"

section \<open>The disposition engine\<close>

definition missingCommitExplanation :: string where
  "missingCommitExplanation =
     ''Any non-trivial git commit must link to a GitHub issue tracking the work. Edit each commit with a tag like ''
     @ [CHR 0x22] @ ''Updates #nn'' @ [CHR 0x22] @ '', and update the PR.''"

text \<open>\<^verbatim>\<open>annotateCommitStatus\<close>; the time it stamps the status with is left out.\<close>

definition annotateCommitStatus :: "GitHub \<Rightarrow> pullRequest \<Rightarrow> string \<Rightarrow> bool \<Rightarrow> error + event list" where
  "annotateCommitStatus cli p headSHA failed =
     (let st = \<lparr>status_Context = ''issuebot'',
                status_State = (if failed then ''failure'' else ''success''),
                status_Description = (if failed then Some missingCommitExplanation else None)\<rparr>
      in case repo_Owner_Login p of
           None \<Rightarrow> Inl NilPointer
         | Some owner \<Rightarrow>
             (case repo_Name p of
                None \<Rightarrow> Inl NilPointer
              | Some name \<Rightarrow>
                  (case CreateStatus cli owner name headSHA st of
                     Inl err \<Rightarrow> Inl LogFatal
                   | Inr _ \<Rightarrow> Inr [EvCreateStatus headSHA st])))"

text \<open>The variables of the scan, and the calls made so far.\<close>

record scan_state =
  status :: pullRequestStatus
  totalDiff :: "64 word"
  trace :: "event list"

definition adopt :: "pullRequestStatus \<Rightarrow> scan_state \<Rightarrow> scan_state" where
  "adopt disp st = (if disp > status st then st\<lparr>status := disp\<rparr> else st)"

text \<open>The inner loop of \<^verbatim>\<open>checkPullRequest\<close>, over the commits of one page.\<close>

fun commit_loop ::
  "Unicode \<Rightarrow> GitHub \<Rightarrow> Regexp option \<Rightarrow> string \<Rightarrow> string \<Rightarrow> RepositoryCommit list \<Rightarrow> scan_state
   \<Rightarrow> error + scan_state" where
  "commit_loop U cli re owner name [] st = Inr st"
| "commit_loop U cli re owner name (rc # rcs) st =
     (case rc_SHA rc of
        None \<Rightarrow> Inl NilPointer
      | Some sha \<Rightarrow>
          (case GetCommit cli owner name sha of
             Inl err \<Rightarrow> Inl LogFatal
           | Inr commit \<Rightarrow>
               (let st1 = st\<lparr>totalDiff := totalDiff st + GetTotal commit,
                              trace := trace st @ [EvGetCommit sha commit]\<rparr>
                in case rc_Commit commit of
                     None \<Rightarrow> Inl NilPointer
                   | Some c \<Rightarrow>
                       (case Message c of
                          None \<Rightarrow> Inl NilPointer
                        | Some message \<Rightarrow>
                            (let st2 = adopt (checkCommitMessage U message) st1
                             in case checkCommitMetadata U re commit of
                                  Inl e \<Rightarrow> Inl e
                                | Inr disp \<Rightarrow>
                                    (let st3 = adopt disp st2
                                     in if status st3 > prSkipped then Inr st3
                                        else commit_loop U cli re owner name rcs st3))))))"

text \<open>The outer loop, over the pages. The remote service decides whether there is a next
  page, so the loop need not end: the first argument bounds the number of pages fetched,
  and \<open>None\<close> says that the bound was reached.\<close>

fun page_loop ::
  "Unicode \<Rightarrow> nat \<Rightarrow> GitHub \<Rightarrow> Regexp option \<Rightarrow> pullRequest \<Rightarrow> int \<Rightarrow> scan_state
   \<Rightarrow> (error + scan_state) option" where
  "page_loop U fuel cli re p page st =
     (if \<not> status st \<le> prSkipped then Some (Inr st)
      else (case fuel of
              0 \<Rightarrow> None
            | Suc fuel' \<Rightarrow>
                (case repo_Owner_Login p of
                   None \<Rightarrow> Some (Inl NilPointer)
                 | Some owner \<Rightarrow>
                     (case repo_Name p of
                        None \<Rightarrow> Some (Inl NilPointer)
                      | Some name \<Rightarrow>
                          (case pr_Number p of
                             None \<Rightarrow> Some (Inl NilPointer)
                           | Some number \<Rightarrow>
                               (case ListCommits cli owner name number page of
                                  Inl err \<Rightarrow> Some (Inl LogFatal)
                                | Inr (repoCommits, NextPage) \<Rightarrow>
                                    (case commit_loop U cli re owner name repoCommits
                                            (st\<lparr>trace := trace st @
                                                  [EvListCommits page repoCommits NextPage]\<rparr>) of
                                       Inl e \<Rightarrow> Some (Inl e)
                                     | Inr st' \<Rightarrow>
                                         if NextPage = 0 then Some (Inr st')
                                         else page_loop U fuel' cli re p NextPage st')))))))"

declare page_loop.simps [simp del]

definition scan_start :: scan_state where
  "scan_start = \<lparr>status = prFailed, totalDiff = 0, trace = []\<rparr>"

record config =
  enableStubIssues :: bool
  botAuthorRE :: "Regexp option"

definition debounce_key :: "pullRequest \<Rightarrow> string" where
  "debounce_key p = GetString (repo_FullName p) @ ''#'' @ Itoa (GetInt (pr_Number p))"

text \<open>What an evaluation leaves: whether it was skipped as a duplicate, the cache, the final
  disposition, the calls made, and the issue and error of the stub step when it ran. An
  evaluation that is skipped computes no disposition and makes no call; its \<open>final\<close> is
  \<open>prFailed\<close>, which stands for nothing there.\<close>

record outcome =
  skipped :: bool
  cache :: "string \<rightharpoonup> Time"
  final :: pullRequestStatus
  events :: "event list"
  stub :: "(int \<times> string option) option"

text \<open>\<^verbatim>\<open>checkPullRequest\<close>, with the bound on the pages, the remote service, the flags, the
  reading of the clock and the cache as arguments.\<close>

definition checkPullRequest ::
  "Unicode \<Rightarrow> nat \<Rightarrow> GitHub \<Rightarrow> config \<Rightarrow> Time \<Rightarrow> (string \<rightharpoonup> Time) \<Rightarrow> pullRequest \<Rightarrow> (error + outcome) option" where
  "checkPullRequest U fuel cli cfg now m p =
     (case debounce now m (debounce_key p) of
        (True, m') \<Rightarrow>
          Some (Inr \<lparr>skipped = True, cache = m', final = prFailed, events = [], stub = None\<rparr>)
      | (False, m') \<Rightarrow>
          (case page_loop U fuel cli (botAuthorRE cfg) p 0 scan_start of
             None \<Rightarrow> None
           | Some (Inl e) \<Rightarrow> Some (Inl e)
           | Some (Inr st) \<Rightarrow>
               (let status1 = (if status st \<le> prSkipped \<and> totalDiff st <s 5 then prSmall
                               else status st);
                    stubbed = (if status1 = prSkipped \<and> enableStubIssues cfg
                               then (Some (fst (find_or_create_stub cli p)),
                                     snd (find_or_create_stub cli p))
                               else (None, []))
                in if status1 = prFailed then
                     (case pr_Head_SHA p of
                        None \<Rightarrow> Some (Inl NilPointer)
                      | Some sha \<Rightarrow>
                          (case annotateCommitStatus cli p sha True of
                             Inl e \<Rightarrow> Some (Inl e)
                           | Inr evs \<Rightarrow>
                               Some (Inr \<lparr>skipped = False, cache = m', final = status1,
                                          events = trace st @ snd stubbed @ evs,
                                          stub = fst stubbed\<rparr>)))
                   else Some (Inr \<lparr>skipped = False, cache = m', final = status1,
                                  events = trace st @ snd stubbed, stub = fst stubbed\<rparr>))))"

section \<open>Reading the calls of a scan\<close>

text \<open>The commits that the scan has examined (the answers to \<open>GetCommit\<close>), the commits it
  has asked for, the pages it has fetched, and the commits that those pages list.\<close>

definition examined :: "event list \<Rightarrow> RepositoryCommit list" where
  "examined evs = concat (map (\<lambda>e. case e of EvGetCommit sha c \<Rightarrow> [c] | _ \<Rightarrow> []) evs)"

definition requested :: "event list \<Rightarrow> string list" where
  "requested evs = concat (map (\<lambda>e. case e of EvGetCommit sha c \<Rightarrow> [sha] | _ \<Rightarrow> []) evs)"

definition fetched :: "event list \<Rightarrow> (int \<times> RepositoryCommit list \<times> int) list" where
  "fetched evs =
     concat (map (\<lambda>e. case e of EvListCommits page rcs nxt \<Rightarrow> [(page, rcs, nxt)] | _ \<Rightarrow> []) evs)"

definition listed :: "event list \<Rightarrow> string option list" where
  "listed evs = concat (map (\<lambda>(page, rcs, nxt). map rc_SHA rcs) (fetched evs))"

text \<open>The pages fetched follow one another: the first is the given page, and each further one
  is the next page that the answer before it named, which was not 0.\<close>

fun chained :: "int \<Rightarrow> (int \<times> RepositoryCommit list \<times> int) list \<Rightarrow> bool" where
  "chained page [] = True"
| "chained page ((page', rcs, nxt) # rest) =
     (page' = page \<and> (rest = [] \<or> nxt \<noteq> 0) \<and> chained nxt rest)"

text \<open>The disposition of one commit: the greater of the results of the two classifiers.\<close>

definition disposition :: "Unicode \<Rightarrow> Regexp option \<Rightarrow> RepositoryCommit \<Rightarrow> pullRequestStatus" where
  "disposition U re commit =
     max (case rc_Commit commit of
            None \<Rightarrow> prFailed
          | Some c \<Rightarrow> (case Message c of None \<Rightarrow> prFailed | Some message \<Rightarrow> checkCommitMessage U message))
         (case checkCommitMetadata U re commit of Inl e \<Rightarrow> prFailed | Inr disp \<Rightarrow> disp)"

text \<open>The maximum of a sequence of dispositions, \<open>prFailed\<close> being where the engine starts.\<close>

definition strongest :: "pullRequestStatus list \<Rightarrow> pullRequestStatus" where
  "strongest ds = Max (set (prFailed # ds))"

section \<open>A remote service to run the engine on\<close>

text \<open>A service that holds the commits of a pull request in pages, numbered from 1 (page 0
  is page 1), lists them without their statistics, answers the two lookups of the stub
  issues as given, and numbers the issue it creates as given.\<close>

definition full_commit :: "string \<Rightarrow> string \<Rightarrow> string \<Rightarrow> string \<Rightarrow> 64 word \<Rightarrow> RepositoryCommit" where
  "full_commit sha message name email lines =
     \<lparr>rc_SHA = Some sha,
      rc_Commit = Some \<lparr>Message = Some message,
                        Author = Some \<lparr>Name = Some name, Email = Some email\<rparr>\<rparr>,
      rc_Stats_Total = Some lines\<rparr>"

definition paged_github ::
  "RepositoryCommit list list \<Rightarrow> string + Issue list \<Rightarrow> string + IssueComment list \<Rightarrow> int \<Rightarrow> GitHub" where
  "paged_github pages issues comments new_issue =
     \<lparr>ListCommits = (\<lambda>owner repo number page.
        let i = (if page \<le> 1 then 0 else nat page - 1)
        in if i < length pages
           then Inr (map (\<lambda>rc. rc\<lparr>rc_Stats_Total := None\<rparr>) (pages ! i),
                     if i + 1 < length pages then int i + 2 else 0)
           else Inr ([], 0)),
      GetCommit = (\<lambda>owner repo sha.
        case find (\<lambda>rc. rc_SHA rc = Some sha) (concat pages) of
          None \<Rightarrow> Inl ''404 Not Found''
        | Some rc \<Rightarrow> Inr rc),
      ListByRepo = (\<lambda>owner repo assignee. issues),
      ListComments = (\<lambda>owner repo number. comments),
      Create = (\<lambda>owner repo request.
        Inr \<lparr>issue_Title = Some (req_Title request), issue_Number = Some new_issue\<rparr>),
      CreateComment = (\<lambda>owner repo number body. Inr ()),
      CreateStatus = (\<lambda>owner repo sha st. Inr ())\<rparr>"

text \<open>The index, from 0, of the page that this service answers a page number with.\<close>

definition page_index :: "int \<Rightarrow> nat" where
  "page_index page = (if page \<le> 1 then 0 else nat page - 1)"

definition pr7 :: pullRequest where
  "pr7 = \<lparr>repo_FullName = Some ''tailscale/tailscale'',
          repo_Owner_Login = Some ''tailscale'',
          repo_Name = Some ''tailscale'',
          pr_Number = Some 7,
          pr_User_Login = Some ''alice'',
          pr_Head_SHA = Some ''c0ffee''\<rparr>"

definition commit_cleanup :: RepositoryCommit where
  "commit_cleanup = full_commit ''a1'' ''Tidy the docs #cleanup'' ''Alice'' ''alice@example.com'' 40"

definition commit_linked :: RepositoryCommit where
  "commit_linked = full_commit ''b2'' ''Fixes #12'' ''Alice'' ''alice@example.com'' 60"

definition commit_skip :: RepositoryCommit where
  "commit_skip = full_commit ''c3'' ''skip-issuebot: will file later'' ''Alice'' ''alice@example.com'' 30"

definition commit_plain :: RepositoryCommit where
  "commit_plain = full_commit ''d4'' ''Fixed the typo'' ''Alice'' ''alice@example.com'' 2"

section \<open>Reading the dispositions off the calls\<close>

text \<open>No commit examined in these calls has a disposition above Skipped.\<close>

definition weak :: "Unicode \<Rightarrow> Regexp option \<Rightarrow> event list \<Rightarrow> bool" where
  "weak U re evs = (\<forall>c \<in> set (examined evs). disposition U re c \<le> prSkipped)"

definition is_scan_event :: "event \<Rightarrow> bool" where
  "is_scan_event e =
     (case e of EvListCommits page rcs nxt \<Rightarrow> True | EvGetCommit sha c \<Rightarrow> True | _ \<Rightarrow> False)"

definition is_create :: "event \<Rightarrow> bool" where
  "is_create e = (case e of EvCreate request \<Rightarrow> True | _ \<Rightarrow> False)"

text \<open>Flags, an open stub issue and a comment of the bot to run the engine with.\<close>

definition stub_flags :: config where
  "stub_flags = \<lparr>enableStubIssues = True, botAuthorRE = None\<rparr>"

definition stub_titled :: Issue where
  "stub_titled = \<lparr>issue_Title = Some ''Placeholder issue for PR #7'', issue_Number = Some 55\<rparr>"

definition stub_comment :: IssueComment where
  "stub_comment = \<lparr>comment_Body = Some ''IssueBot here. I have filed issue #56 for you''\<rparr>"

text \<open>A comment that matches the recognition pattern and names issue 0, and whether an
  evaluation has called the creation of an issue.\<close>

definition zero_comment :: IssueComment where
  "zero_comment = \<lparr>comment_Body = Some ''IssueBot here. I have filed issue #0 for you''\<rparr>"

definition created :: "outcome \<Rightarrow> bool" where
  "created out = list_ex is_create (events out)"

section \<open>Properties of the commit-message classifier\<close>

lemma verb_loop_iff:
  "verb_loop lower vs =
     ((\<exists>verb \<in> set vs. HasPrefix lower verb) \<and>
      (Contains lower ''#'' \<or> Contains lower ''github.com''))"
  by (induction vs) auto

lemma line_loop_later:
  "0 < idx \<Longrightarrow>
   line_loop U idx lines = (if \<exists>l \<in> set lines. linking_line U l then Some prLinked else None)"
  by (induction lines arbitrary: idx) (auto simp: verb_loop_iff linking_line_def)

lemma line_loop_first:
  "line_loop U 0 (line # lines) =
     (if HasPrefix line ''Revert'' then Some prRevert
      else if \<exists>l \<in> set (line # lines). linking_line U l then Some prLinked
      else None)"
  by (auto simp: line_loop_later verb_loop_iff linking_line_def)

lemma Split_not_Nil: "Split s sep \<noteq> []"
  by (induction s) (auto split: list.splits)

text \<open>Claim C4: the commit-message classifier is total and returns one disposition, by this
  precedence: Revert when the first line starts with the word Revert, whatever follows;
  else IssueLinked when some line starts with a linking verb and holds a marker; else Skipped
  when the message contains skip-issuebot; else Cleanup when it contains #cleanup; else
  Failed.\<close>

theorem checkCommitMessage_precedence:
  "checkCommitMessage U message =
     (if first_line_revert message then prRevert
      else if \<exists>line \<in> set (Split message newline). linking_line U line then prLinked
      else if Contains message ''skip-issuebot'' then prSkipped
      else if Contains message ''#cleanup'' then prCleanup
      else prFailed)"
proof (cases "Split message newline")
  case Nil
  then show ?thesis by (simp add: Split_not_Nil)
next
  case (Cons line lines)
  then show ?thesis
    unfolding checkCommitMessage_def first_line_revert_def
    by (simp only: line_loop_first list.case split: if_splits) auto
qed

theorem checkCommitMessage_precedence_witness:
  "checkCommitMessage unicode_excerpt (''Revert abc'' @ [newline] @ ''Fixes #1 skip-issuebot'')
     = prRevert \<and>
   checkCommitMessage unicode_excerpt (''Tidy #cleanup skip-issuebot'' @ [newline] @ ''Updates #1'')
     = prLinked \<and>
   checkCommitMessage unicode_excerpt (''F'' @ [CHR 0xC4, CHR 0xB0] @ ''x #1 skip-issuebot'')
     = prLinked \<and>
   checkCommitMessage unicode_excerpt (''Tidy #cleanup'' @ [newline] @ ''skip-issuebot'') = prSkipped \<and>
   checkCommitMessage unicode_excerpt (''Tidy'' @ [newline] @ ''Just a #cleanup'') = prCleanup \<and>
   checkCommitMessage unicode_excerpt ''Fixed the typo'' = prFailed"
  by (simp only: checkCommitMessage_precedence) code_simp

text \<open>Claim C3, as it is written, fails: a message whose first line starts with the word
  Revert is classified Revert although a later line starts with a linking verb and holds
  the marker.\<close>

theorem checkCommitMessage_linked_counterexample:
  "linking_line unicode_excerpt ''Fixes #1'' \<and>
   ''Fixes #1'' \<in> set (Split (''Revert abc'' @ [newline] @ ''Fixes #1'') newline) \<and>
   checkCommitMessage unicode_excerpt (''Revert abc'' @ [newline] @ ''Fixes #1'') \<noteq> prLinked"
  by code_simp

text \<open>Claim C3, amended: the classifier returns IssueLinked exactly when the first line does
  not start with the word Revert and some line, once lowered by \<^verbatim>\<open>strings.ToLower\<close>,
  starts with a linking verb and holds the character # or the text github.com; when the
  first line starts with the word Revert the result is Revert. A line that starts with a
  verb and holds neither marker, such as a reference XXX-123, does not yield IssueLinked.\<close>

theorem checkCommitMessage_linked_iff:
  "(checkCommitMessage U message = prLinked \<longleftrightarrow>
      \<not> first_line_revert message \<and>
      (\<exists>line \<in> set (Split message newline). linking_line U line)) \<and>
   (first_line_revert message \<longrightarrow> checkCommitMessage U message = prRevert)"
proof (cases "Split message newline")
  case Nil
  then show ?thesis by (simp add: Split_not_Nil)
next
  case (Cons line lines)
  then show ?thesis
    unfolding checkCommitMessage_def first_line_revert_def
    by (simp only: line_loop_first list.case split: if_splits) auto
qed

theorem checkCommitMessage_linked_iff_witness:
  "checkCommitMessage unicode_excerpt
     (''Add feature'' @ [newline] @ ''UPDATES https://GitHub.com/tailscale/x/issues/1'') = prLinked \<and>
   checkCommitMessage unicode_excerpt (''Add feature'' @ [newline] @ ''Updates XXX-123'') \<noteq> prLinked \<and>
   checkCommitMessage unicode_excerpt (''Revert abc'' @ [newline] @ ''Fixes #1'') = prRevert"
proof -
  let ?a = "''Add feature'' @ [newline] @ ''UPDATES https://GitHub.com/tailscale/x/issues/1''"
  let ?b = "''Add feature'' @ [newline] @ ''Updates XXX-123''"
  let ?c = "''Revert abc'' @ [newline] @ ''Fixes #1''"
  have "\<not> first_line_revert ?a \<and>
        (\<exists>line \<in> set (Split ?a newline). linking_line unicode_excerpt line)"
    by code_simp
  with checkCommitMessage_linked_iff [of unicode_excerpt ?a]
  have a: "checkCommitMessage unicode_excerpt ?a = prLinked" by blast
  have "\<not> (\<exists>line \<in> set (Split ?b newline). linking_line unicode_excerpt line)"
    by code_simp
  with checkCommitMessage_linked_iff [of unicode_excerpt ?b]
  have b: "checkCommitMessage unicode_excerpt ?b \<noteq> prLinked" by blast
  have "first_line_revert ?c"
    by code_simp
  with checkCommitMessage_linked_iff [of unicode_excerpt ?c]
  have c: "checkCommitMessage unicode_excerpt ?c = prRevert" by blast
  from a b c show ?thesis by (intro conjI)
qed

section \<open>Properties of the bot-author classifier\<close>

lemma fields_acc_Nil_iff: "fields_acc sp cur s = [] \<longleftrightarrow> cur = [] \<and> (\<forall>c \<in> set s. sp c)"
  by (induction s arbitrary: cur) auto

lemma rtrim_all_space: "\<forall>c \<in> set s. sp c \<Longrightarrow> rtrim sp (xs @ s) = rtrim sp xs"
  by (simp add: rtrim_def dropWhile_append)

lemma rtrim_append: "\<exists>c \<in> set s. \<not> sp c \<Longrightarrow> rtrim sp (xs @ s) = xs @ rtrim sp s"
  by (auto simp: rtrim_def dropWhile_append)

lemma rtrim_no_space: "\<forall>c \<in> set s. \<not> sp c \<Longrightarrow> rtrim sp s = s"
  by (cases "rev s") (auto simp: rtrim_def)

lemma collapse_from_word:
  "\<forall>c \<in> set w. \<not> sp c \<Longrightarrow> w \<noteq> [] \<Longrightarrow>
   collapse_from sp hy b (w @ s) = w @ collapse_from sp hy False s"
  by (induction w arbitrary: b) (auto, metis append_Nil)

lemma collapse_from_word0:
  "\<forall>c \<in> set w. \<not> sp c \<Longrightarrow> collapse_from sp hy False (w @ s) = w @ collapse_from sp hy False s"
  by (cases "w = []") (simp_all add: collapse_from_word)

lemma collapse_from_True:
  "collapse_from sp hy True s = collapse_from sp hy False (dropWhile sp s)"
  by (induction s) auto

lemma Join_Cons: "Join (e # es) sep = (if es = [] then e else e @ sep @ Join es sep)"
  by (cases es) auto

lemma Join_fields_acc:
  "\<forall>c \<in> set cur. \<not> sp c \<Longrightarrow>
   Join (fields_acc sp cur s) [hy] = collapse_from sp hy False (trim sp (rev cur @ s))"
proof (induction s arbitrary: cur)
  case Nil
  then show ?case
    using collapse_from_word0 [of "rev cur" sp hy "[]"]
    by (cases "rev cur") (auto simp: trim_def rtrim_no_space)
next
  case (Cons c cs)
  show ?case
  proof (cases "sp c")
    case False
    with Cons.prems have "\<forall>x \<in> set (c # cur). \<not> sp x" by simp
    from Cons.IH [OF this] False show ?thesis by simp
  next
    case True
    note space = this
    have IH: "Join (fields_acc sp [] cs) [hy] = collapse_from sp hy False (trim sp cs)"
      using Cons.IH [of "[]"] by simp
    show ?thesis
    proof (cases "\<forall>x \<in> set cs. sp x")
      case True
      then have all: "\<forall>x \<in> set (c # cs). sp x" using space by simp
      have "fields_acc sp [] cs = []" using True by (simp add: fields_acc_Nil_iff)
      moreover have "trim sp (rev cur @ c # cs) = rev cur"
        using Cons.prems rtrim_all_space [OF all, of "rev cur"]
        by (cases "rev cur") (auto simp: trim_def rtrim_no_space)
      moreover have "collapse_from sp hy False (rev cur) = rev cur"
        using Cons.prems collapse_from_word0 [of "rev cur" sp hy "[]"] by simp
      ultimately show ?thesis using space by simp
    next
      case False
      then have ne: "fields_acc sp [] cs \<noteq> []" by (simp add: fields_acc_Nil_iff)
      have r1: "rtrim sp (c # cs) = c # rtrim sp cs"
        using rtrim_append [of cs sp "[c]"] False by simp
      show ?thesis
      proof (cases "cur = []")
        case True
        then show ?thesis using space IH r1 by (simp add: trim_def)
      next
        case False
        have ex: "\<exists>x \<in> set (c # cs). \<not> sp x"
          using \<open>\<not> (\<forall>x \<in> set cs. sp x)\<close> by auto
        have "rtrim sp (rev cur @ c # cs) = rev cur @ c # rtrim sp cs"
          using rtrim_append [OF ex, of "rev cur"] r1 by simp
        moreover have "dropWhile sp (rev cur @ c # rtrim sp cs) = rev cur @ c # rtrim sp cs"
          using Cons.prems False by (cases "rev cur") auto
        ultimately have t: "trim sp (rev cur @ c # cs) = rev cur @ c # rtrim sp cs"
          by (simp add: trim_def)
        have "collapse_from sp hy False (rev cur @ c # rtrim sp cs) =
                rev cur @ hy # collapse_from sp hy False (trim sp cs)"
          using Cons.prems space
          by (simp add: collapse_from_word0 collapse_from_True trim_def)
        then show ?thesis using space False ne IH t by (simp add: Join_Cons)
      qed
    qed
  qed
qed

lemma text_of_Join:
  "Join (map text_of fs) (text_of sep) = text_of (Join fs sep)"
  by (induction fs sep rule: Join.induct) (simp_all add: text_of_def)

lemma Join_FieldsFunc: "Join (FieldsFunc s IsSpace) ''-'' = trim_collapse_ws s"
proof -
  have "Join (FieldsFunc s IsSpace) ''-'' =
          Join (map text_of (fields_acc space_rune [] (runes s))) (text_of [hyphen])"
    by (simp add: FieldsFunc_def text_of_def space_rune_def hyphen_def)
  also have "\<dots> = text_of (Join (fields_acc space_rune [] (runes s)) [hyphen])"
    by (rule text_of_Join)
  also have "\<dots> = trim_collapse_ws s"
    using Join_fields_acc [of "[]" space_rune "runes s" hyphen] by (simp add: trim_collapse_ws_def)
  finally show ?thesis .
qed

lemma runes_ascii: "isASCII s \<Longrightarrow> runes s = map (\<lambda>c. (byte c, [c])) s"
  by (induction s) (auto simp: isASCII_def)

lemma fields_acc_cong:
  "(\<And>x. x \<in> set xs \<Longrightarrow> p x = q x) \<Longrightarrow> fields_acc p cur xs = fields_acc q cur xs"
  by (induction xs arbitrary: cur) auto

lemma fields_acc_map:
  "fields_acc sp (map g cur) (map g xs) = map (map g) (fields_acc (\<lambda>x. sp (g x)) cur xs)"
proof (induction xs arbitrary: cur)
  case Nil
  then show ?case by (simp add: rev_map)
next
  case (Cons x xs)
  from Cons [of "[]"] Cons [of "x # cur"] show ?case by (simp add: rev_map)
qed

lemma asciiSpace_IsSpace: "byte c < 0x80 \<Longrightarrow> asciiSpace c = IsSpace (byte c)"
  by (auto simp: asciiSpace_def IsSpace_def)

lemma Fields_ascii: "isASCII s \<Longrightarrow> fields_acc asciiSpace [] s = FieldsFunc s IsSpace"
proof -
  assume a: "isASCII s"
  let ?g = "\<lambda>c. (byte c, [c])"
  have "FieldsFunc s IsSpace =
          map text_of (fields_acc (\<lambda>(r, bytes). IsSpace r) (map ?g []) (map ?g s))"
    by (simp add: FieldsFunc_def runes_ascii [OF a])
  also have "\<dots> = map text_of (map (map ?g) (fields_acc (\<lambda>c. IsSpace (byte c)) [] s))"
    by (subst fields_acc_map) simp
  also have "\<dots> = fields_acc (\<lambda>c. IsSpace (byte c)) [] s"
    by (simp add: comp_def text_of_def)
  also have "\<dots> = fields_acc asciiSpace [] s"
    using a by (intro fields_acc_cong) (auto simp: isASCII_def list_all_iff asciiSpace_IsSpace)
  finally show ?thesis by simp
qed

lemma Join_Fields: "Join (Fields s) ''-'' = trim_collapse_ws s"
  by (simp add: Fields_def Fields_ascii Join_FieldsFunc)

text \<open>Claim C1 fails on the code: with a pattern that has no capturing group and an e-mail
  address that matches it, the match has length one, the code reads its element 1 and
  panics instead of returning true.\<close>

theorem isAutomationBotAuthor_no_group_panics:
  "plain_botAuthorRE ''noreply@example.com'' = Some [''noreply@example.com''] \<and>
   isAutomationBotAuthor unicode_excerpt (Some plain_botAuthorRE)
     (Some \<lparr>Name = Some ''Foo'', Email = Some ''noreply@example.com''\<rparr>) = Inl IndexOutOfRange"
  by code_simp

text \<open>Claim C5, as it is written, fails: white space at the start of the name is dropped,
  not turned into a hyphen, so the name " apple" matches the captured text "apple".\<close>

theorem isAutomationBotAuthor_collapse_counterexample:
  "test_botAuthorRE ''noreply+apple@example.com''
     = Some [''noreply+apple@example.com'', ''apple''] \<and>
   isAutomationBotAuthor unicode_excerpt (Some test_botAuthorRE)
     (Some \<lparr>Name = Some '' apple'', Email = Some ''noreply+apple@example.com''\<rparr>) = Inr True \<and>
   \<not> EqualFold unicode_excerpt (collapse_ws '' apple'') ''apple''"
  by code_simp

text \<open>Claim C5, amended: when the e-mail address matches the pattern and the pattern has a
  first capturing group, the classifier returns true exactly when the captured text equals,
  under the case folding of \<^verbatim>\<open>strings.EqualFold\<close>, the name with the white space at its
  two ends dropped and every run of white space inside it turned into one hyphen; without
  a pattern, an author, a name or an e-mail address it returns false, and it does not
  fail.\<close>

theorem isAutomationBotAuthor_group:
  "(re email = Some m \<and> 1 < length m \<longrightarrow>
      isAutomationBotAuthor U (Some re) (Some \<lparr>Name = Some name, Email = Some email\<rparr>)
        = Inr (EqualFold U (trim_collapse_ws name) (m ! 1))) \<and>
   isAutomationBotAuthor U None u = Inr False \<and>
   isAutomationBotAuthor U bre None = Inr False \<and>
   (Name a = None \<or> Email a = None \<longrightarrow> isAutomationBotAuthor U bre (Some a) = Inr False)"
  by (auto simp: isAutomationBotAuthor_def Join_Fields split: option.splits)

theorem isAutomationBotAuthor_group_witness:
  "isAutomationBotAuthor unicode_excerpt (Some test_botAuthorRE)
     (Some \<lparr>Name = Some '' Pear   Plum '', Email = Some ''noreply+pear-plum@example.com''\<rparr>)
     = Inr True \<and>
   isAutomationBotAuthor unicode_excerpt (Some test_botAuthorRE)
     (Some \<lparr>Name = Some (''Pear'' @ [CHR 0xC2, CHR 0xA0] @ ''Plum''),
            Email = Some ''noreply+pear-plum@example.com''\<rparr>)
     = Inr True \<and>
   isAutomationBotAuthor unicode_excerpt (Some test_botAuthorRE)
     (Some \<lparr>Name = Some ''Foo Bar'', Email = Some ''noreply+foo_bar@example.com''\<rparr>)
     = Inr False \<and>
   isAutomationBotAuthor unicode_excerpt (Some test_botAuthorRE)
     (Some \<lparr>Name = None, Email = Some ''noreply+foo_bar@example.com''\<rparr>) = Inr False"
proof -
  let ?e1 = "''noreply+pear-plum@example.com''"
  let ?e2 = "''noreply+foo_bar@example.com''"
  let ?n2 = "''Pear'' @ [CHR 0xC2, CHR 0xA0] @ ''Plum''"
  have m1: "test_botAuthorRE ?e1 = Some [?e1, ''pear-plum''] \<and> 1 < length [?e1, ''pear-plum'']"
    by code_simp
  have m2: "test_botAuthorRE ?e2 = Some [?e2, ''foo_bar''] \<and> 1 < length [?e2, ''foo_bar'']"
    by code_simp
  have e1: "EqualFold unicode_excerpt (trim_collapse_ws '' Pear   Plum '') ([?e1, ''pear-plum''] ! 1)"
    by code_simp
  have e2: "EqualFold unicode_excerpt (trim_collapse_ws ?n2) ([?e1, ''pear-plum''] ! 1)"
    by code_simp
  have e3: "\<not> EqualFold unicode_excerpt (trim_collapse_ws ''Foo Bar'') ([?e2, ''foo_bar''] ! 1)"
    by code_simp
  have n: "Name \<lparr>Name = None, Email = Some ?e2\<rparr> = None \<or>
           Email \<lparr>Name = None, Email = Some ?e2\<rparr> = None"
    by simp
  from isAutomationBotAuthor_group [where re = test_botAuthorRE and email = ?e1
      and m = "[?e1, ''pear-plum'']" and U = unicode_excerpt and name = "'' Pear   Plum ''"] m1 e1
  have a: "isAutomationBotAuthor unicode_excerpt (Some test_botAuthorRE)
     (Some \<lparr>Name = Some '' Pear   Plum '', Email = Some ?e1\<rparr>) = Inr True"
    by simp
  from isAutomationBotAuthor_group [where re = test_botAuthorRE and email = ?e1
      and m = "[?e1, ''pear-plum'']" and U = unicode_excerpt and name = ?n2] m1 e2
  have b: "isAutomationBotAuthor unicode_excerpt (Some test_botAuthorRE)
     (Some \<lparr>Name = Some ?n2, Email = Some ?e1\<rparr>) = Inr True"
    by simp
  from isAutomationBotAuthor_group [where re = test_botAuthorRE and email = ?e2
      and m = "[?e2, ''foo_bar'']" and U = unicode_excerpt and name = "''Foo Bar''"] m2 e3
  have c: "isAutomationBotAuthor unicode_excerpt (Some test_botAuthorRE)
     (Some \<lparr>Name = Some ''Foo Bar'', Email = Some ?e2\<rparr>) = Inr False"
    by simp
  from isAutomationBotAuthor_group [where bre = "Some test_botAuthorRE" and U = unicode_excerpt
      and a = "\<lparr>Name = None, Email = Some ?e2\<rparr>"] n
  have d: "isAutomationBotAuthor unicode_excerpt (Some test_botAuthorRE)
     (Some \<lparr>Name = None, Email = Some ?e2\<rparr>) = Inr False"
    by blast
  from a b c d show ?thesis by (intro conjI)
qed

section \<open>Properties of the debounce cache\<close>

text \<open>Claim C7, as it is written, fails: a call that skips leaves the stored time as it was,
  so a third call within the interval of the second, but beyond the interval of the first,
  proceeds; and of two calls spaced beyond the interval the first skips when the cache
  holds a recent entry.\<close>

theorem debounce_two_calls_counterexample:
  "Sub 8000000000 4000000000 \<le> debounceInterval \<and>
   \<not> fst (debounce 8000000000
            (snd (debounce 4000000000 [''tailscale/tailscale#7'' \<mapsto> 0] ''tailscale/tailscale#7''))
            ''tailscale/tailscale#7'') \<and>
   Sub 7000000000 1000000000 > debounceInterval \<and>
   fst (debounce 1000000000 [''tailscale/tailscale#7'' \<mapsto> 0] ''tailscale/tailscale#7'')"
  by (simp add: debounce_def clean_stale_def Sub_def debounceInterval_def maxDuration_def
      minDuration_def)

text \<open>Claim C7, amended: a call purges every entry older than the interval, whatever its key;
  if the key is then absent the call stores the current time under it and returns false
  (proceed); if the key is present, within the interval, the call returns true (skip) and
  leaves the stored time as it was. Hence, after a call that returned false, the next call
  with the same key returns true when it comes within the interval of that call and false
  when it comes later.\<close>

theorem debounce_call:
  "debounce now m key = (skip, m') \<Longrightarrow>
     (\<forall>k t. m k = Some t \<and> Sub now t > debounceInterval \<longrightarrow>
        m' k = (if k = key then Some now else None)) \<and>
     (\<forall>k t. k \<noteq> key \<and> m k = Some t \<and> \<not> Sub now t > debounceInterval \<longrightarrow> m' k = Some t) \<and>
     (m key = None \<or> (\<exists>t. m key = Some t \<and> Sub now t > debounceInterval) \<longrightarrow>
        \<not> skip \<and> m' key = Some now) \<and>
     (\<forall>t. m key = Some t \<and> \<not> Sub now t > debounceInterval \<longrightarrow> skip \<and> m' key = Some t) \<and>
     (\<not> skip \<longrightarrow> (\<forall>now2. fst (debounce now2 m' key) = (Sub now2 now \<le> debounceInterval)))"
  by (auto simp: debounce_def clean_stale_def Let_def split: option.splits if_splits)

theorem debounce_call_witness:
  "\<not> fst (debounce 6000000000 [''tailscale/tailscale#7'' \<mapsto> 0] ''tailscale/tailscale#7'') \<and>
   fst (debounce 9000000000
          (snd (debounce 6000000000 [''tailscale/tailscale#7'' \<mapsto> 0] ''tailscale/tailscale#7''))
          ''tailscale/tailscale#7'') \<and>
   \<not> fst (debounce 12000000000
          (snd (debounce 6000000000 [''tailscale/tailscale#7'' \<mapsto> 0] ''tailscale/tailscale#7''))
          ''tailscale/tailscale#7'')"
proof -
  let ?k = "''tailscale/tailscale#7''"
  let ?m = "[?k \<mapsto> (0::int)]"
  let ?r = "debounce 6000000000 ?m ?k"
  have h: "?r = (fst ?r, snd ?r)"
    by simp
  note c = debounce_call [OF h]
  have p: "?m ?k = None \<or> (\<exists>t. ?m ?k = Some t \<and> Sub 6000000000 t > debounceInterval)"
    by (simp add: Sub_def debounceInterval_def maxDuration_def minDuration_def)
  from c p have ns: "\<not> fst ?r"
    by blast
  from c ns have "\<forall>now2. fst (debounce now2 (snd ?r) ?k) = (Sub now2 6000000000 \<le> debounceInterval)"
    by blast
  then show ?thesis
    using ns by (simp add: Sub_def debounceInterval_def maxDuration_def minDuration_def)
qed

section \<open>The loops of the scan\<close>

lemma examined_simps [simp]:
  "examined [] = []"
  "examined (EvGetCommit sha c # evs) = c # examined evs"
  "examined (EvListCommits page rcs nxt # evs) = examined evs"
  "examined (xs @ ys) = examined xs @ examined ys"
  by (simp_all add: examined_def)

lemma requested_simps [simp]:
  "requested [] = []"
  "requested (EvGetCommit sha c # evs) = sha # requested evs"
  "requested (EvListCommits page rcs nxt # evs) = requested evs"
  "requested (xs @ ys) = requested xs @ requested ys"
  by (simp_all add: requested_def)

lemma fetched_simps [simp]:
  "fetched [] = []"
  "fetched (EvGetCommit sha c # evs) = fetched evs"
  "fetched (EvListCommits page rcs nxt # evs) = (page, rcs, nxt) # fetched evs"
  "fetched (xs @ ys) = fetched xs @ fetched ys"
  by (simp_all add: fetched_def)

lemma listed_simps [simp]:
  "listed [] = []"
  "listed (EvGetCommit sha c # evs) = listed evs"
  "listed (EvListCommits page rcs nxt # evs) = map rc_SHA rcs @ listed evs"
  "listed (xs @ ys) = listed xs @ listed ys"
  by (simp_all add: listed_def)

lemma fetched_Nil_listed: "fetched evs = [] \<Longrightarrow> listed evs = []"
  by (simp add: listed_def)

lemma weak_simps [simp]:
  "weak U re []"
  "weak U re (EvGetCommit sha c # evs) = (disposition U re c \<le> prSkipped \<and> weak U re evs)"
  "weak U re (EvListCommits page rcs nxt # evs) = weak U re evs"
  "weak U re (xs @ ys) = (weak U re xs \<and> weak U re ys)"
  by (auto simp: weak_def)

lemma fold_max_le:
  "fold max ds (a :: pullRequestStatus) \<le> b \<longleftrightarrow> a \<le> b \<and> (\<forall>d \<in> set ds. d \<le> b)"
  by (induction ds arbitrary: a) auto

lemma fold_max_ge: "(a :: pullRequestStatus) \<le> fold max ds a"
  by (induction ds arbitrary: a) (auto intro: order_trans [OF max.cobounded2])

lemma strongest_fold: "strongest ds = fold max ds prFailed"
  unfolding strongest_def by (rule Max.set_eq_fold)

lemma weak_fold_max:
  "fold max (map (disposition U re) (examined evs)) a \<le> prSkipped \<Longrightarrow> weak U re evs"
  by (simp add: fold_max_le weak_def)

lemma adopt_simps [simp]:
  "status (adopt d st) = max d (status st)"
  "trace (adopt d st) = trace st"
  "totalDiff (adopt d st) = totalDiff st"
  by (auto simp: adopt_def max_def)

lemma commit_loop_Cons_Inr:
  assumes "commit_loop U cli re owner name (rc # rcs) st = Inr st'"
  shows "\<exists>sha commit st3.
           rc_SHA rc = Some sha \<and>
           trace st3 = trace st @ [EvGetCommit sha commit] \<and>
           totalDiff st3 = totalDiff st + GetTotal commit \<and>
           status st3 = max (disposition U re commit) (status st) \<and>
           (if prSkipped < status st3 then st' = st3
            else commit_loop U cli re owner name rcs st3 = Inr st')"
proof -
  from assms obtain sha where sha: "rc_SHA rc = Some sha"
    by (auto split: option.splits)
  from assms sha obtain commit where commit: "GetCommit cli owner name sha = Inr commit"
    by (auto split: sum.splits)
  from assms sha commit obtain c where c: "rc_Commit commit = Some c"
    by (auto simp: Let_def split: option.splits)
  from assms sha commit c obtain message where message: "Message c = Some message"
    by (auto simp: Let_def split: option.splits)
  from assms sha commit c message obtain d where d: "checkCommitMetadata U re commit = Inr d"
    by (auto simp: Let_def split: sum.splits)
  define st3 where "st3 = adopt d (adopt (checkCommitMessage U message)
      (st\<lparr>totalDiff := totalDiff st + GetTotal commit,
          trace := trace st @ [EvGetCommit sha commit]\<rparr>))"
  have disp: "disposition U re commit = max (checkCommitMessage U message) d"
    by (simp add: disposition_def c message d)
  have "status st3 = max (disposition U re commit) (status st)"
    by (simp add: st3_def disp max.assoc max.commute max.left_commute)
  moreover have "trace st3 = trace st @ [EvGetCommit sha commit]"
    by (simp add: st3_def)
  moreover have "totalDiff st3 = totalDiff st + GetTotal commit"
    by (simp add: st3_def)
  moreover have "if prSkipped < status st3 then st' = st3
            else commit_loop U cli re owner name rcs st3 = Inr st'"
    using assms unfolding st3_def by (simp add: sha commit c message d Let_def split: if_splits)
  ultimately show ?thesis using sha by blast
qed

lemma commit_loop_Inr:
  assumes "commit_loop U cli re owner name rcs st = Inr st'"
  shows "\<exists>evs. trace st' = trace st @ evs \<and> fetched evs = [] \<and>
           (\<forall>e \<in> set evs. is_scan_event e) \<and>
           status st' = fold max (map (disposition U re) (examined evs)) (status st) \<and>
           totalDiff st' = totalDiff st + sum_list (map GetTotal (examined evs)) \<and>
           weak U re (butlast evs) \<and>
           (status st' \<le> prSkipped \<longrightarrow> map Some (requested evs) = map rc_SHA rcs)"
  using assms
proof (induction rcs arbitrary: st)
  case Nil
  then show ?case by (intro exI [of _ "[]"]) simp
next
  case (Cons rc rcs)
  from commit_loop_Cons_Inr [OF Cons.prems] obtain sha commit st3 where
    sha: "rc_SHA rc = Some sha" and
    tr: "trace st3 = trace st @ [EvGetCommit sha commit]" and
    td: "totalDiff st3 = totalDiff st + GetTotal commit" and
    stt: "status st3 = max (disposition U re commit) (status st)" and
    rest: "if prSkipped < status st3 then st' = st3
           else commit_loop U cli re owner name rcs st3 = Inr st'"
    by blast
  show ?case
  proof (cases "prSkipped < status st3")
    case True
    with rest have "st' = st3" by simp
    with tr td stt True show ?thesis
      by (intro exI [of _ "[EvGetCommit sha commit]"]) (auto simp: is_scan_event_def less_max_iff_disj)
  next
    case False
    with rest have "commit_loop U cli re owner name rcs st3 = Inr st'" by simp
    from Cons.IH [OF this] obtain evs where
      e1: "trace st' = trace st3 @ evs" and e2: "fetched evs = []" and
      e3: "\<forall>e \<in> set evs. is_scan_event e" and
      e4: "status st' = fold max (map (disposition U re) (examined evs)) (status st3)" and
      e5: "totalDiff st' = totalDiff st3 + sum_list (map GetTotal (examined evs))" and
      e6: "weak U re (butlast evs)" and
      e7: "status st' \<le> prSkipped \<longrightarrow> map Some (requested evs) = map rc_SHA rcs"
      by blast
    from False stt have wk: "disposition U re commit \<le> prSkipped"
      by (simp add: less_max_iff_disj not_less)
    show ?thesis
    proof (intro exI [of _ "EvGetCommit sha commit # evs"] conjI)
      show "trace st' = trace st @ EvGetCommit sha commit # evs" using e1 tr by simp
      show "fetched (EvGetCommit sha commit # evs) = []" using e2 by simp
      show "\<forall>e \<in> set (EvGetCommit sha commit # evs). is_scan_event e"
        using e3 by (simp add: is_scan_event_def)
      show "status st' = fold max (map (disposition U re) (examined (EvGetCommit sha commit # evs)))
              (status st)"
        using e4 stt by simp
      show "totalDiff st' = totalDiff st + sum_list (map GetTotal (examined (EvGetCommit sha commit # evs)))"
        using e5 td by simp
      show "weak U re (butlast (EvGetCommit sha commit # evs))" using e6 wk by simp
      show "status st' \<le> prSkipped \<longrightarrow>
              map Some (requested (EvGetCommit sha commit # evs)) = map rc_SHA (rc # rcs)"
        using e7 sha by simp
    qed
  qed
qed

lemma page_loop_cases:
  assumes "page_loop U fuel cli re p page st = Some (Inr st')"
  shows "(\<not> status st \<le> prSkipped \<and> st' = st) \<or>
         (status st \<le> prSkipped \<and>
          (\<exists>fuel' owner name number rcs nxt st1.
             fuel = Suc fuel' \<and>
             ListCommits cli owner name number page = Inr (rcs, nxt) \<and>
             commit_loop U cli re owner name rcs
               (st\<lparr>trace := trace st @ [EvListCommits page rcs nxt]\<rparr>) = Inr st1 \<and>
             (if nxt = 0 then st' = st1
              else page_loop U fuel' cli re p nxt st1 = Some (Inr st'))))"
  using assms
  apply (subst (asm) page_loop.simps)
  apply (simp split: nat.splits option.splits sum.splits if_splits prod.splits)
   apply blast+
  done

lemma page_loop_Inr:
  assumes "page_loop U fuel cli re p page st = Some (Inr st')"
  shows "\<exists>evs. trace st' = trace st @ evs \<and>
           (\<not> status st \<le> prSkipped \<longrightarrow> evs = []) \<and>
           (\<forall>e \<in> set evs. is_scan_event e) \<and>
           status st' = fold max (map (disposition U re) (examined evs)) (status st) \<and>
           totalDiff st' = totalDiff st + sum_list (map GetTotal (examined evs)) \<and>
           weak U re (butlast evs) \<and>
           chained page (fetched evs) \<and>
           (status st' \<le> prSkipped \<longrightarrow>
              fetched evs \<noteq> [] \<and> snd (snd (last (fetched evs))) = 0 \<and>
              map Some (requested evs) = listed evs)"
  using assms
proof (induction fuel arbitrary: page st)
  case 0
  from page_loop_cases [OF 0] have "\<not> status st \<le> prSkipped" "st' = st" by auto
  then show ?case by (intro exI [of _ "[]"]) simp
next
  case (Suc fuel)
  from page_loop_cases [OF Suc.prems] show ?case
  proof (elim disjE conjE exE)
    assume "\<not> status st \<le> prSkipped" "st' = st"
    then show ?thesis by (intro exI [of _ "[]"]) simp
  next
    fix fuel' owner name number rcs nxt st1
    assume weak0: "status st \<le> prSkipped"
      and fuel: "Suc fuel = Suc fuel'"
      and cl: "commit_loop U cli re owner name rcs
                 (st\<lparr>trace := trace st @ [EvListCommits page rcs nxt]\<rparr>) = Inr st1"
      and rest: "if nxt = 0 then st' = st1
                 else page_loop U fuel' cli re p nxt st1 = Some (Inr st')"
    let ?L = "EvListCommits page rcs nxt"
    from commit_loop_Inr [OF cl] obtain evs1 where
      c1: "trace st1 = trace st @ ?L # evs1" and c2: "fetched evs1 = []" and
      c3: "\<forall>e \<in> set evs1. is_scan_event e" and
      c4: "status st1 = fold max (map (disposition U re) (examined evs1)) (status st)" and
      c5: "totalDiff st1 = totalDiff st + sum_list (map GetTotal (examined evs1))" and
      c6: "weak U re (butlast evs1)" and
      c7: "status st1 \<le> prSkipped \<longrightarrow> map Some (requested evs1) = map rc_SHA rcs"
      by auto
    have l1: "listed evs1 = []" using c2 by (rule fetched_Nil_listed)
    show ?thesis
    proof (cases "nxt = 0")
      case True
      with rest have "st' = st1" by simp
      with c1 c2 c3 c4 c5 c6 c7 l1 True weak0 show ?thesis
        by (intro exI [of _ "?L # evs1"]) (auto simp: is_scan_event_def)
    next
      case False
      with rest fuel have "page_loop U fuel cli re p nxt st1 = Some (Inr st')" by simp
      from Suc.IH [OF this] obtain evs2 where
        p1: "trace st' = trace st1 @ evs2" and
        p2: "\<not> status st1 \<le> prSkipped \<longrightarrow> evs2 = []" and
        p3: "\<forall>e \<in> set evs2. is_scan_event e" and
        p4: "status st' = fold max (map (disposition U re) (examined evs2)) (status st1)" and
        p5: "totalDiff st' = totalDiff st1 + sum_list (map GetTotal (examined evs2))" and
        p6: "weak U re (butlast evs2)" and
        p7: "chained nxt (fetched evs2)" and
        p8: "status st' \<le> prSkipped \<longrightarrow>
               fetched evs2 \<noteq> [] \<and> snd (snd (last (fetched evs2))) = 0 \<and>
               map Some (requested evs2) = listed evs2"
        by blast
      have mono: "status st1 \<le> status st'" unfolding p4 by (rule fold_max_ge)
      show ?thesis
      proof (intro exI [of _ "?L # evs1 @ evs2"] conjI)
        show "trace st' = trace st @ ?L # evs1 @ evs2" using p1 c1 by simp
        show "\<not> status st \<le> prSkipped \<longrightarrow> ?L # evs1 @ evs2 = []" using weak0 by simp
        show "\<forall>e \<in> set (?L # evs1 @ evs2). is_scan_event e"
          using c3 p3 by (auto simp: is_scan_event_def)
        show "status st' = fold max (map (disposition U re) (examined (?L # evs1 @ evs2))) (status st)"
          using p4 c4 by simp
        show "totalDiff st' = totalDiff st + sum_list (map GetTotal (examined (?L # evs1 @ evs2)))"
          using p5 c5 by simp
        show "weak U re (butlast (?L # evs1 @ evs2))"
        proof (cases "evs2 = []")
          case True
          then show ?thesis using c6 by (cases "evs1 = []") simp_all
        next
          case False
          with p2 have "status st1 \<le> prSkipped" by blast
          then have "weak U re evs1" unfolding c4 by (rule weak_fold_max)
          with p6 False show ?thesis by (simp add: butlast_append)
        qed
        show "chained page (fetched (?L # evs1 @ evs2))" using p7 c2 \<open>nxt \<noteq> 0\<close> by simp
        show "status st' \<le> prSkipped \<longrightarrow>
                fetched (?L # evs1 @ evs2) \<noteq> [] \<and>
                snd (snd (last (fetched (?L # evs1 @ evs2)))) = 0 \<and>
                map Some (requested (?L # evs1 @ evs2)) = listed (?L # evs1 @ evs2)"
        proof
          assume w: "status st' \<le> prSkipped"
          with mono have "status st1 \<le> prSkipped" by (rule order_trans)
          with c7 have "map Some (requested evs1) = map rc_SHA rcs" by blast
          with p8 w c2 l1 show "fetched (?L # evs1 @ evs2) \<noteq> [] \<and>
                snd (snd (last (fetched (?L # evs1 @ evs2)))) = 0 \<and>
                map Some (requested (?L # evs1 @ evs2)) = listed (?L # evs1 @ evs2)"
            by simp
        qed
      qed
    qed
  qed
qed



lemma weak_prefix:
  "weak U re (butlast evs) \<Longrightarrow> evs = xs @ e # ys \<Longrightarrow> weak U re xs"
  by (simp add: butlast_append split: if_splits)

lemma prFailed_least [simp]: "prFailed \<le> d"
  by (simp add: less_eq_pullRequestStatus_def)

lemma weak_strongest: "weak U re xs \<Longrightarrow> strongest (map (disposition U re) (examined xs)) \<le> prSkipped"
  by (simp add: strongest_fold fold_max_le weak_def)

lemma checkStubIssue_err:
  "snd (fst (checkStubIssue cli p)) \<noteq> None \<Longrightarrow> fst (fst (checkStubIssue cli p)) = 0"
  by (auto simp: checkStubIssue_def Let_def split: sum.splits option.splits)

lemma checkStubIssue_events:
  "snd (checkStubIssue cli p) = [EvListByRepo (GetString (pr_User_Login p))] \<or>
   snd (checkStubIssue cli p) =
     [EvListByRepo (GetString (pr_User_Login p)), EvListComments (GetInt (pr_Number p))]"
  by (auto simp: checkStubIssue_def Let_def split: sum.splits option.splits)

lemma createStubIssue_events:
  "\<exists>request rest. snd (createStubIssue cli p) = EvCreate request # rest"
  by (auto simp: createStubIssue_def Let_def split: sum.splits)

lemma find_or_create_stub_unfold:
  "find_or_create_stub cli p =
     (if 0 < fst (fst (checkStubIssue cli p)) then checkStubIssue cli p
      else (fst (createStubIssue cli p),
            snd (checkStubIssue cli p) @ snd (createStubIssue cli p)))"
  by (simp add: find_or_create_stub_def split: prod.splits)

lemma find_or_create_stub_first:
  "\<exists>rest. snd (find_or_create_stub cli p) = EvListByRepo (GetString (pr_User_Login p)) # rest"
  using checkStubIssue_events [of cli p] by (auto simp: find_or_create_stub_unfold)

lemma find_or_create_stub_no_status:
  "EvCreateStatus sha s \<notin> set (snd (find_or_create_stub cli p))"
  using checkStubIssue_events [of cli p]
  by (auto simp: find_or_create_stub_unfold createStubIssue_def Let_def split: sum.splits)

lemma annotateCommitStatus_Inr:
  "annotateCommitStatus cli p sha failed = Inr evs \<Longrightarrow> \<exists>s. evs = [EvCreateStatus sha s]"
  by (auto simp: annotateCommitStatus_def Let_def split: option.splits sum.splits)

lemma checkPullRequest_Inr:
  assumes "checkPullRequest U fuel cli cfg now m p = Some (Inr out)" and "\<not> skipped out"
  shows "\<exists>st aevs.
           page_loop U fuel cli (botAuthorRE cfg) p 0 scan_start = Some (Inr st) \<and>
           final out = (if status st \<le> prSkipped \<and> totalDiff st <s 5 then prSmall else status st) \<and>
           stub out = (if final out = prSkipped \<and> enableStubIssues cfg
                       then Some (fst (find_or_create_stub cli p)) else None) \<and>
           events out = trace st @
                        (if final out = prSkipped \<and> enableStubIssues cfg
                         then snd (find_or_create_stub cli p) else []) @ aevs \<and>
           (final out \<noteq> prFailed \<longrightarrow> aevs = []) \<and>
           (\<forall>e \<in> set aevs. \<exists>sha s. e = EvCreateStatus sha s)"
proof -
  from assms obtain m' where deb: "debounce now m (debounce_key p) = (False, m')"
    by (cases "debounce now m (debounce_key p)")
       (auto simp: checkPullRequest_def split: if_splits bool.splits)
  with assms obtain st where
    scan: "page_loop U fuel cli (botAuthorRE cfg) p 0 scan_start = Some (Inr st)"
    by (auto simp: checkPullRequest_def split: option.splits sum.splits)
  define status1 where
    "status1 = (if status st \<le> prSkipped \<and> totalDiff st <s 5 then prSmall else status st)"
  define sevs where
    "sevs = (if status1 = prSkipped \<and> enableStubIssues cfg
             then snd (find_or_create_stub cli p) else [])"
  define sres where
    "sres = (if status1 = prSkipped \<and> enableStubIssues cfg
             then Some (fst (find_or_create_stub cli p)) else None)"
  show ?thesis
  proof (cases "status1 = prFailed")
    case True
    with assms(1) deb scan obtain sha evs where
      "annotateCommitStatus cli p sha True = Inr evs" and
      "out = \<lparr>skipped = False, cache = m', final = status1,
              events = trace st @ sevs @ evs, stub = sres\<rparr>"
      unfolding checkPullRequest_def status1_def sevs_def sres_def
      by (auto simp: Let_def split: option.splits sum.splits if_splits)
    moreover from this obtain s where "evs = [EvCreateStatus sha s]"
      using annotateCommitStatus_Inr by blast
    ultimately show ?thesis
      using scan True unfolding status1_def sevs_def sres_def
      by (intro exI [of _ st] exI [of _ evs]) auto
  next
    case False
    with assms(1) deb scan have
      "out = \<lparr>skipped = False, cache = m', final = status1,
              events = trace st @ sevs, stub = sres\<rparr>"
      unfolding checkPullRequest_def status1_def sevs_def sres_def
      by (auto simp: Let_def split: option.splits sum.splits if_splits)
    then show ?thesis
      using scan False unfolding status1_def sevs_def sres_def
      by (intro exI [of _ st] exI [of _ "[]"]) auto
  qed
qed

lemma split_after_prefix: "xs @ e # ys = a @ b \<Longrightarrow> e \<notin> set a \<Longrightarrow> \<exists>zs. xs = a @ zs"
proof (induction a arbitrary: xs)
  case Nil
  then show ?case by simp
next
  case (Cons x a)
  then show ?case by (cases xs) auto
qed

lemma fold_max_in: "fold max ds (a :: pullRequestStatus) \<in> insert a (set ds)"
  by (induction ds arbitrary: a) (auto simp: max_def)

lemma checkCommitMessage_not_small: "checkCommitMessage U message \<noteq> prSmall"
proof (cases "Split message newline")
  case Nil
  then show ?thesis by (simp add: Split_not_Nil)
next
  case (Cons line lines)
  then show ?thesis
    unfolding checkCommitMessage_def
    by (simp only: line_loop_first list.case split: if_splits) auto
qed

lemma checkCommitMetadata_not_small: "checkCommitMetadata U re commit \<noteq> Inr prSmall"
  by (auto simp: checkCommitMetadata_def split: option.splits sum.splits if_splits)

lemma disposition_not_small: "disposition U re commit \<noteq> prSmall"
  using checkCommitMessage_not_small checkCommitMetadata_not_small [of U re commit]
  by (auto simp: disposition_def max_def split: option.splits sum.splits)

lemma scan_not_small:
  assumes "page_loop U fuel cli re p page scan_start = Some (Inr st)"
  shows "status st \<noteq> prSmall"
proof -
  from page_loop_Inr [OF assms] obtain evs where
    "status st = fold max (map (disposition U re) (examined evs)) (status scan_start)"
    by blast
  then show ?thesis
    using fold_max_in [of "map (disposition U re) (examined evs)" prFailed]
      disposition_not_small [of U re]
    by (auto simp: scan_start_def)
qed

lemma scan_totalDiff:
  assumes "page_loop U fuel cli re p page scan_start = Some (Inr st)"
  shows "totalDiff st = sum_list (map GetTotal (examined (trace st)))"
proof -
  from page_loop_Inr [OF assms] obtain evs where
    "trace st = trace scan_start @ evs"
    "totalDiff st = totalDiff scan_start + sum_list (map GetTotal (examined evs))"
    by blast
  then show ?thesis by (simp add: scan_start_def)
qed

lemma scan_events:
  assumes "page_loop U fuel cli re p page scan_start = Some (Inr st)"
  shows "\<forall>e \<in> set (trace st). is_scan_event e"
proof -
  from page_loop_Inr [OF assms] obtain evs where
    "trace st = trace scan_start @ evs" "\<forall>e \<in> set evs. is_scan_event e"
    by blast
  then show ?thesis by (simp add: scan_start_def)
qed

section \<open>The bound on the pages\<close>

text \<open>The bound decides only whether the scan returns within it, not what it returns.\<close>

lemma page_loop_fuel_mono:
  "page_loop U fuel cli re p page st = Some r \<Longrightarrow> page_loop U (fuel + k) cli re p page st = Some r"
proof (induction fuel arbitrary: page st)
  case 0
  then show ?case
    by (cases "status st \<le> prSkipped") (simp_all add: page_loop.simps)
next
  case (Suc fuel)
  show ?case
    using Suc.prems Suc.IH
    by (subst page_loop.simps, subst (asm) page_loop.simps)
       (auto split: option.splits sum.splits prod.splits if_splits)
qed

lemma paged_ListCommits:
  "\<exists>rcs nxt.
     ListCommits (paged_github pages issues comments n) owner name number page = Inr (rcs, nxt) \<and>
     (nxt = 0 \<or> (page_index nxt = Suc (page_index page) \<and> page_index page < length pages))"
  by (auto simp: paged_github_def Let_def page_index_def)

text \<open>On a service that holds finitely many pages the scan returns, with a disposition or
  with an error, once the bound exceeds the number of pages left.\<close>

lemma paged_scan_returns:
  "length pages - page_index page < fuel \<Longrightarrow>
   page_loop U fuel (paged_github pages issues comments n) re p page st \<noteq> None"
proof (induction fuel arbitrary: page st)
  case 0
  then show ?case by simp
next
  case (Suc fuel)
  let ?cli = "paged_github pages issues comments n"
  show ?case
  proof (cases "status st \<le> prSkipped \<and> repo_Owner_Login p \<noteq> None \<and>
                repo_Name p \<noteq> None \<and> pr_Number p \<noteq> None")
    case False
    then show ?thesis
      by (subst page_loop.simps) (auto split: option.splits)
  next
    case True
    then obtain owner name number where
      f: "repo_Owner_Login p = Some owner" "repo_Name p = Some name" "pr_Number p = Some number"
      by auto
    from paged_ListCommits [of pages issues comments n owner name number page] obtain rcs nxt where
      lc: "ListCommits ?cli owner name number page = Inr (rcs, nxt)" and
      nx: "nxt = 0 \<or> (page_index nxt = Suc (page_index page) \<and> page_index page < length pages)"
      by blast
    show ?thesis
    proof (cases "commit_loop U ?cli re owner name rcs
                    (st\<lparr>trace := trace st @ [EvListCommits page rcs nxt]\<rparr>)")
      case (Inl e)
      with True f lc show ?thesis
        by (subst page_loop.simps) simp
    next
      case (Inr st')
      show ?thesis
      proof (cases "nxt = 0")
        case True
        with \<open>status st \<le> prSkipped \<and> _\<close> f lc Inr show ?thesis
          by (subst page_loop.simps) simp
      next
        case False
        with nx Suc.prems have "length pages - page_index nxt < fuel" by auto
        from Suc.IH [OF this] have "page_loop U fuel ?cli re p nxt st' \<noteq> None" .
        with True f lc Inr False show ?thesis
          by (subst page_loop.simps) simp
      qed
    qed
  qed
qed

lemma paged_checkPullRequest_returns:
  "length pages < fuel \<Longrightarrow>
   checkPullRequest U fuel (paged_github pages issues comments n) cfg now m p \<noteq> None"
  using paged_scan_returns [of pages 0 fuel U issues comments n "botAuthorRE cfg" p scan_start]
  by (auto simp: checkPullRequest_def Let_def page_index_def
      split: prod.splits bool.splits option.splits sum.splits)

section \<open>Properties of the disposition engine\<close>




text \<open>Claim C8: in a scan that returns, whenever a page is fetched, the disposition accumulated
  over the commits examined before that call is at most Skipped, so no page is fetched once
  the accumulated disposition exceeds Skipped; the pages fetched follow one another from
  the first; and when the scan ends with a disposition of at most Skipped, the last page
  fetched named no next page and every commit listed on the pages has been examined, so
  Skipped alone never ends the scan.\<close>

theorem scan_early_exit:
  "page_loop U fuel cli re p page scan_start = Some (Inr st) \<Longrightarrow>
     (\<forall>xs page' rcs nxt ys.
        trace st = xs @ EvListCommits page' rcs nxt # ys \<longrightarrow>
        strongest (map (disposition U re) (examined xs)) \<le> prSkipped) \<and>
     chained page (fetched (trace st)) \<and>
     (status st \<le> prSkipped \<longrightarrow>
        fetched (trace st) \<noteq> [] \<and> snd (snd (last (fetched (trace st)))) = 0 \<and>
        map Some (requested (trace st)) = listed (trace st))"
proof -
  assume "page_loop U fuel cli re p page scan_start = Some (Inr st)"
  from page_loop_Inr [OF this] obtain evs where
    tr: "trace st = trace scan_start @ evs" and
    wk: "weak U re (butlast evs)" and
    ch: "chained page (fetched evs)" and
    ex: "status st \<le> prSkipped \<longrightarrow>
           fetched evs \<noteq> [] \<and> snd (snd (last (fetched evs))) = 0 \<and>
           map Some (requested evs) = listed evs"
    by blast
  from tr have tr': "trace st = evs" by (simp add: scan_start_def)
  have "strongest (map (disposition U re) (examined xs)) \<le> prSkipped"
    if "trace st = xs @ EvListCommits page' rcs nxt # ys" for xs page' rcs nxt ys
    using weak_prefix [OF wk] that tr' by (auto intro: weak_strongest)
  with ch ex tr' show ?thesis by blast
qed

theorem scan_early_exit_witness:
  "(\<exists>st. page_loop unicode_excerpt 3
           (paged_github [[commit_skip], [commit_cleanup, commit_linked], [commit_plain]]
              (Inr []) (Inr []) 100)
           None pr7 0 scan_start = Some (Inr st) \<and>
         map fst (fetched (trace st)) = [0, 2] \<and>
         requested (trace st) = [''c3'', ''a1''] \<and>
         (\<forall>xs page' rcs nxt ys.
            trace st = xs @ EvListCommits page' rcs nxt # ys \<longrightarrow>
            strongest (map (disposition unicode_excerpt None) (examined xs)) \<le> prSkipped) \<and>
         chained 0 (fetched (trace st))) \<and>
   (\<exists>st. page_loop unicode_excerpt 2 (paged_github [[commit_skip], [commit_plain]] (Inr []) (Inr []) 100)
           None pr7 0 scan_start = Some (Inr st) \<and>
         status st = prSkipped \<and>
         fetched (trace st) \<noteq> [] \<and> snd (snd (last (fetched (trace st)))) = 0 \<and>
         map Some (requested (trace st)) = listed (trace st))"
proof -
  let ?run = "page_loop unicode_excerpt 3
                (paged_github [[commit_skip], [commit_cleanup, commit_linked], [commit_plain]]
                   (Inr []) (Inr []) 100)
                None pr7 0 scan_start"
  have "case ?run of
          Some (Inr st) \<Rightarrow>
            map fst (fetched (trace st)) = [0, 2] \<and> requested (trace st) = [''c3'', ''a1'']
        | _ \<Rightarrow> False"
    by code_simp
  then obtain st where run: "?run = Some (Inr st)"
    and f: "map fst (fetched (trace st)) = [0, 2]" and r: "requested (trace st) = [''c3'', ''a1'']"
    by (auto split: option.splits sum.splits)
  from scan_early_exit [OF run] have
    a: "\<forall>xs page' rcs nxt ys.
           trace st = xs @ EvListCommits page' rcs nxt # ys \<longrightarrow>
           strongest (map (disposition unicode_excerpt None) (examined xs)) \<le> prSkipped" and
    b: "chained 0 (fetched (trace st))"
    by blast+
  have first: "\<exists>st. ?run = Some (Inr st) \<and>
         map fst (fetched (trace st)) = [0, 2] \<and>
         requested (trace st) = [''c3'', ''a1''] \<and>
         (\<forall>xs page' rcs nxt ys.
            trace st = xs @ EvListCommits page' rcs nxt # ys \<longrightarrow>
            strongest (map (disposition unicode_excerpt None) (examined xs)) \<le> prSkipped) \<and>
         chained 0 (fetched (trace st))"
    by (rule exI [of _ st]) (intro conjI; fact)
  let ?run2 = "page_loop unicode_excerpt 2 (paged_github [[commit_skip], [commit_plain]] (Inr []) (Inr []) 100)
                 None pr7 0 scan_start"
  have "case ?run2 of Some (Inr st) \<Rightarrow> status st = prSkipped | _ \<Rightarrow> False"
    by code_simp
  then obtain st2 where run2: "?run2 = Some (Inr st2)" and s2: "status st2 = prSkipped"
    by (auto split: option.splits sum.splits)
  from scan_early_exit [OF run2] s2 have
    c: "fetched (trace st2) \<noteq> []" and d: "snd (snd (last (fetched (trace st2)))) = 0" and
    e: "map Some (requested (trace st2)) = listed (trace st2)"
    by auto
  have second: "\<exists>st. ?run2 = Some (Inr st) \<and> status st = prSkipped \<and>
         fetched (trace st) \<noteq> [] \<and> snd (snd (last (fetched (trace st)))) = 0 \<and>
         map Some (requested (trace st)) = listed (trace st)"
    by (rule exI [of _ st2]) (intro conjI; fact)
  from first second show ?thesis by (rule conjI)
qed

text \<open>Claim C6: in an evaluation that is not skipped as a duplicate and whose scan returns,
  the total accumulated is the sum, in 64 bits, of the changed lines of the commits
  examined; when the scan ends with a disposition of at most Skipped and a total below 5,
  the evaluation ends with the disposition SmallDiff and makes no call beyond those of the
  scan, so the pull request is not marked failing; when a stronger disposition was found
  or the total is 5 or more, the disposition of the scan stays as it is, and it is not
  SmallDiff.\<close>

theorem small_diff_upgrade:
  "\<not> fst (debounce now m (debounce_key p)) \<Longrightarrow>
   page_loop U fuel cli (botAuthorRE cfg) p 0 scan_start = Some (Inr st) \<Longrightarrow>
     totalDiff st = sum_list (map GetTotal (examined (trace st))) \<and>
     (status st \<le> prSkipped \<and> totalDiff st <s 5 \<longrightarrow>
        (\<exists>out. checkPullRequest U fuel cli cfg now m p = Some (Inr out) \<and>
               final out = prSmall \<and> events out = trace st \<and>
               (\<forall>sha s. EvCreateStatus sha s \<notin> set (events out)))) \<and>
     (\<not> (status st \<le> prSkipped \<and> totalDiff st <s 5) \<longrightarrow>
        (\<forall>out. checkPullRequest U fuel cli cfg now m p = Some (Inr out) \<longrightarrow>
               final out = status st \<and> final out \<noteq> prSmall))"
proof -
  assume deb: "\<not> fst (debounce now m (debounce_key p))"
    and scan: "page_loop U fuel cli (botAuthorRE cfg) p 0 scan_start = Some (Inr st)"
  from deb have deb': "debounce now m (debounce_key p) = (False, snd (debounce now m (debounce_key p)))"
    by (cases "debounce now m (debounce_key p)") simp
  have up: "\<exists>out. checkPullRequest U fuel cli cfg now m p = Some (Inr out) \<and>
               final out = prSmall \<and> events out = trace st \<and>
               (\<forall>sha s. EvCreateStatus sha s \<notin> set (events out))"
    if "status st \<le> prSkipped" "totalDiff st <s 5"
  proof -
    from that have "checkPullRequest U fuel cli cfg now m p =
        Some (Inr \<lparr>skipped = False, cache = snd (debounce now m (debounce_key p)),
                   final = prSmall, events = trace st, stub = None\<rparr>)"
      unfolding checkPullRequest_def by (subst deb') (simp add: scan Let_def)
    moreover have "EvCreateStatus sha s \<notin> set (trace st)" for sha s
      using scan_events [OF scan] by (auto simp: is_scan_event_def)
    ultimately show ?thesis by simp
  qed
  have keep: "final out = status st \<and> final out \<noteq> prSmall"
    if "\<not> (status st \<le> prSkipped \<and> totalDiff st <s 5)"
       "checkPullRequest U fuel cli cfg now m p = Some (Inr out)" for out
    using that scan_not_small [OF scan] unfolding checkPullRequest_def
    by (subst (asm) deb')
       (auto simp: scan Let_def split: option.splits sum.splits if_splits)
  from up keep scan_totalDiff [OF scan] show ?thesis by blast
qed

theorem small_diff_upgrade_witness:
  "\<exists>st out.
     \<not> fst (debounce 0 Map.empty (debounce_key pr7)) \<and>
     page_loop unicode_excerpt 1 (paged_github [[commit_plain]] (Inr []) (Inr []) 100)
       (botAuthorRE stub_flags) pr7 0 scan_start = Some (Inr st) \<and>
     status st = prFailed \<and> totalDiff st = 2 \<and>
     checkPullRequest unicode_excerpt 1 (paged_github [[commit_plain]] (Inr []) (Inr []) 100)
       stub_flags 0 Map.empty pr7 = Some (Inr out) \<and>
     final out = prSmall \<and>
     (\<forall>sha s. EvCreateStatus sha s \<notin> set (events out))"
proof -
  let ?g = "paged_github [[commit_plain]] (Inr []) (Inr []) 100"
  have deb: "\<not> fst (debounce 0 Map.empty (debounce_key pr7))"
    by (simp add: debounce_def clean_stale_def)
  have "case page_loop unicode_excerpt 1 ?g (botAuthorRE stub_flags) pr7 0 scan_start of
          Some (Inr st) \<Rightarrow> status st = prFailed \<and> totalDiff st = 2 | _ \<Rightarrow> False"
    by code_simp
  then obtain st where
    scan: "page_loop unicode_excerpt 1 ?g (botAuthorRE stub_flags) pr7 0 scan_start = Some (Inr st)" and
    s: "status st = prFailed" and t: "totalDiff st = 2"
    by (auto split: option.splits sum.splits)
  have small: "status st \<le> prSkipped \<and> totalDiff st <s 5"
    by (simp add: s t less_eq_pullRequestStatus_def word_sless_alt)
  from small_diff_upgrade [OF deb scan] small obtain out where
    run: "checkPullRequest unicode_excerpt 1 ?g stub_flags 0 Map.empty pr7 = Some (Inr out)" and
    fin: "final out = prSmall" and
    ann: "\<forall>sha s. EvCreateStatus sha s \<notin> set (events out)"
    by blast
  show ?thesis
    by (rule exI [of _ st], rule exI [of _ out]) (intro conjI; fact)
qed

text \<open>The recognition pattern also takes the long s for an s, and of several matches on a
  line the last.\<close>

lemma issueCommentRE_folds:
  "issueCommentRE (''Note: i'' @ [CHR 0xC5, CHR 0xBF] @
       ''SUEBOT HERE. I have filed issue #5 for you, no: I have filed issue #57 for you!'')
     = Some [''i'' @ [CHR 0xC5, CHR 0xBF] @
               ''SUEBOT HERE. I have filed issue #5 for you, no: I have filed issue #57 for you'',
             ''57'']"
  by code_simp

text \<open>Claim C9, as it is written, fails: a comment on the pull request that matches the
  recognition pattern and names issue 0 makes the existence check succeed with the number
  0, which the engine does not take for an existing issue, and the creation is called.\<close>

theorem stub_number_zero_counterexample:
  "issueCommentRE (GetString (comment_Body zero_comment))
     = Some [''IssueBot here. I have filed issue #0 for you'', ''0''] \<and>
   fst (checkStubIssue (paged_github [[commit_skip]] (Inr []) (Inr [zero_comment]) 100) pr7)
     = (0, None) \<and>
   map_option (map_sum id final)
     (checkPullRequest unicode_excerpt 1
        (paged_github [[commit_skip]] (Inr []) (Inr [zero_comment]) 100)
        stub_flags 0 Map.empty pr7) = Some (Inr prSkipped) \<and>
   map_option (map_sum id created)
     (checkPullRequest unicode_excerpt 1
        (paged_github [[commit_skip]] (Inr []) (Inr [zero_comment]) 100)
        stub_flags 0 Map.empty pr7) = Some (Inr True)"
  by code_simp

text \<open>Claim C9, amended: in every evaluation, a call that creates an issue comes after the call
  that lists the open stub issues of the author, so the existence check is made before the
  creation; and whenever the existence check reports a number above 0, no issue is
  created. The check reports the number of the first open issue under the stub label,
  assigned to the author, whose title is that of the pull request, and otherwise the number
  that the first comment matching the recognition pattern names. When the stub step runs
  and the check yields no number above 0 (nothing matches, the match carries the number 0,
  or the lookup fails), the creation is called.\<close>

theorem find_before_create:
  "checkPullRequest U fuel cli cfg now m p = Some (Inr out) \<Longrightarrow>
     (\<forall>xs request ys. events out = xs @ EvCreate request # ys \<longrightarrow>
        (\<exists>assignee. EvListByRepo assignee \<in> set xs)) \<and>
     (0 < fst (fst (checkStubIssue cli p)) \<longrightarrow> (\<forall>request. EvCreate request \<notin> set (events out))) \<and>
     (\<forall>issues issue.
        ListByRepo cli (GetString (repo_Owner_Login p)) (GetString (repo_Name p))
          (GetString (pr_User_Login p)) = Inr issues \<and>
        find (\<lambda>i. GetString (issue_Title i) = issueTitle (GetInt (pr_Number p))) issues = Some issue
        \<longrightarrow>
        fst (checkStubIssue cli p) = (GetInt (issue_Number issue), None)) \<and>
     (\<forall>issues comments comment mt.
        ListByRepo cli (GetString (repo_Owner_Login p)) (GetString (repo_Name p))
          (GetString (pr_User_Login p)) = Inr issues \<and>
        find (\<lambda>i. GetString (issue_Title i) = issueTitle (GetInt (pr_Number p))) issues = None \<and>
        ListComments cli (GetString (repo_Owner_Login p)) (GetString (repo_Name p))
          (GetInt (pr_Number p)) = Inr comments \<and>
        find (\<lambda>c. issueCommentRE (GetString (comment_Body c)) \<noteq> None) comments = Some comment \<and>
        issueCommentRE (GetString (comment_Body comment)) = Some mt
        \<longrightarrow>
        fst (checkStubIssue cli p) = (Atoi (mt ! 1), None)) \<and>
     (final out = prSkipped \<and> enableStubIssues cfg \<and> \<not> 0 < fst (fst (checkStubIssue cli p))
        \<longrightarrow> (\<exists>request. EvCreate request \<in> set (events out)))"
proof -
  assume run: "checkPullRequest U fuel cli cfg now m p = Some (Inr out)"
  have ev: "(\<forall>xs request ys. events out = xs @ EvCreate request # ys \<longrightarrow>
               (\<exists>assignee. EvListByRepo assignee \<in> set xs)) \<and>
            (0 < fst (fst (checkStubIssue cli p)) \<longrightarrow>
               (\<forall>request. EvCreate request \<notin> set (events out))) \<and>
            (final out = prSkipped \<and> enableStubIssues cfg \<and>
             \<not> 0 < fst (fst (checkStubIssue cli p))
               \<longrightarrow> (\<exists>request. EvCreate request \<in> set (events out)))"
  proof (cases "skipped out")
    case True
    with run have "events out = [] \<and> final out = prFailed"
      by (auto simp: checkPullRequest_def Let_def
          split: prod.splits bool.splits option.splits sum.splits if_splits)
    then show ?thesis by simp
  next
    case False
    from checkPullRequest_Inr [OF run False] obtain st aevs where
      scan: "page_loop U fuel cli (botAuthorRE cfg) p 0 scan_start = Some (Inr st)" and
      evs: "events out = trace st @
              (if final out = prSkipped \<and> enableStubIssues cfg
               then snd (find_or_create_stub cli p) else []) @ aevs" and
      ann: "\<forall>e \<in> set aevs. \<exists>sha s. e = EvCreateStatus sha s"
      by blast
    note sc = scan_events [OF scan]
    let ?sevs = "if final out = prSkipped \<and> enableStubIssues cfg
               then snd (find_or_create_stub cli p) else []"
    have before: "\<exists>assignee. EvListByRepo assignee \<in> set xs"
      if split: "events out = xs @ EvCreate request # ys" for xs request ys
    proof -
      from split evs have "EvCreate request \<in> set (trace st @ ?sevs @ aevs)"
        by (metis in_set_conv_decomp)
      with sc ann have "EvCreate request \<in> set ?sevs"
        by (auto simp: is_scan_event_def)
      then have on: "final out = prSkipped \<and> enableStubIssues cfg"
        by (auto split: if_splits)
      from find_or_create_stub_first [of cli p] obtain rest where
        rest: "snd (find_or_create_stub cli p) = EvListByRepo (GetString (pr_User_Login p)) # rest"
        by blast
      from split evs on rest have
        eq: "xs @ EvCreate request # ys =
             (trace st @ [EvListByRepo (GetString (pr_User_Login p))]) @ rest @ aevs"
        by simp
      have "EvCreate request \<notin> set (trace st @ [EvListByRepo (GetString (pr_User_Login p))])"
        using sc by (auto simp: is_scan_event_def)
      with eq have "\<exists>zs. xs = (trace st @ [EvListByRepo (GetString (pr_User_Login p))]) @ zs"
        by (rule split_after_prefix)
      then show ?thesis by auto
    qed
    have none: "EvCreate request \<notin> set (events out)"
      if "0 < fst (fst (checkStubIssue cli p))" for request
      using that evs sc ann checkStubIssue_events [of cli p]
      by (auto simp: is_scan_event_def find_or_create_stub_unfold split: if_splits)
    have some: "\<exists>request. EvCreate request \<in> set (events out)"
      if "final out = prSkipped" "enableStubIssues cfg" "\<not> 0 < fst (fst (checkStubIssue cli p))"
    proof -
      from createStubIssue_events [of cli p] obtain request rest where
        "snd (createStubIssue cli p) = EvCreate request # rest"
        by blast
      with that evs have "EvCreate request \<in> set (events out)"
        by (simp add: find_or_create_stub_unfold)
      then show ?thesis ..
    qed
    from before none some show ?thesis by blast
  qed
  have t: "fst (checkStubIssue cli p) = (GetInt (issue_Number issue), None)"
    if "ListByRepo cli (GetString (repo_Owner_Login p)) (GetString (repo_Name p))
          (GetString (pr_User_Login p)) = Inr issues"
       "find (\<lambda>i. GetString (issue_Title i) = issueTitle (GetInt (pr_Number p))) issues = Some issue"
    for issues issue
    using that by (simp add: checkStubIssue_def Let_def)
  have c: "fst (checkStubIssue cli p) = (Atoi (mt ! 1), None)"
    if "ListByRepo cli (GetString (repo_Owner_Login p)) (GetString (repo_Name p))
          (GetString (pr_User_Login p)) = Inr issues"
       "find (\<lambda>i. GetString (issue_Title i) = issueTitle (GetInt (pr_Number p))) issues = None"
       "ListComments cli (GetString (repo_Owner_Login p)) (GetString (repo_Name p))
          (GetInt (pr_Number p)) = Inr comments"
       "find (\<lambda>c. issueCommentRE (GetString (comment_Body c)) \<noteq> None) comments = Some comment"
       "issueCommentRE (GetString (comment_Body comment)) = Some mt"
    for issues comments comment mt
    using that by (simp add: checkStubIssue_def Let_def)
  from ev t c show ?thesis by blast
qed


theorem find_before_create_witness:
  "(\<exists>out. checkPullRequest unicode_excerpt 1 (paged_github [[commit_skip]] (Inr [stub_titled]) (Inr []) 100)
             stub_flags 0 Map.empty pr7 = Some (Inr out) \<and>
          final out = prSkipped \<and> stub out = Some (55, None) \<and>
          (\<forall>request. EvCreate request \<notin> set (events out))) \<and>
   fst (checkStubIssue (paged_github [[commit_skip]] (Inr [stub_titled]) (Inr []) 100) pr7)
     = (55, None) \<and>
   (\<exists>out. checkPullRequest unicode_excerpt 1 (paged_github [[commit_skip]] (Inr []) (Inr [stub_comment]) 100)
             stub_flags 0 Map.empty pr7 = Some (Inr out) \<and>
          final out = prSkipped \<and> stub out = Some (56, None) \<and>
          (\<forall>request. EvCreate request \<notin> set (events out))) \<and>
   fst (checkStubIssue (paged_github [[commit_skip]] (Inr []) (Inr [stub_comment]) 100) pr7)
     = (56, None) \<and>
   (\<exists>out. checkPullRequest unicode_excerpt 1 (paged_github [[commit_skip]] (Inr []) (Inr []) 100)
             stub_flags 0 Map.empty pr7 = Some (Inr out) \<and>
          final out = prSkipped \<and> stub out = Some (100, None) \<and>
          (\<exists>request. EvCreate request \<in> set (events out)) \<and>
          (\<forall>xs request ys. events out = xs @ EvCreate request # ys \<longrightarrow>
             (\<exists>assignee. EvListByRepo assignee \<in> set xs))) \<and>
   (\<exists>out. checkPullRequest unicode_excerpt 1 (paged_github [[commit_skip]] (Inr []) (Inr [zero_comment]) 100)
             stub_flags 0 Map.empty pr7 = Some (Inr out) \<and>
          final out = prSkipped \<and> stub out = Some (100, None) \<and>
          (\<exists>request. EvCreate request \<in> set (events out)))"
proof -
  let ?g1 = "paged_github [[commit_skip]] (Inr [stub_titled]) (Inr []) 100"
  let ?g2 = "paged_github [[commit_skip]] (Inr []) (Inr [stub_comment]) 100"
  let ?g3 = "paged_github [[commit_skip]] (Inr []) (Inr []) 100"
  let ?g4 = "paged_github [[commit_skip]] (Inr []) (Inr [zero_comment]) 100"
  have flags: "enableStubIssues stub_flags"
    by code_simp
  have "case checkPullRequest unicode_excerpt 1 ?g1 stub_flags 0 Map.empty pr7 of
          Some (Inr out) \<Rightarrow> final out = prSkipped \<and> stub out = Some (55, None) | _ \<Rightarrow> False"
    by code_simp
  then obtain o1 where r1: "checkPullRequest unicode_excerpt 1 ?g1 stub_flags 0 Map.empty pr7 = Some (Inr o1)"
    and f1: "final o1 = prSkipped" and s1: "stub o1 = Some (55, None)"
    by (auto split: option.splits sum.splits)
  note t1 = find_before_create [OF r1]
  have l1: "ListByRepo ?g1 (GetString (repo_Owner_Login pr7)) (GetString (repo_Name pr7))
              (GetString (pr_User_Login pr7)) = Inr [stub_titled]"
    by code_simp
  have i1: "find (\<lambda>i. GetString (issue_Title i) = issueTitle (GetInt (pr_Number pr7))) [stub_titled]
              = Some stub_titled"
    by code_simp
  have v1: "GetInt (issue_Number stub_titled) = 55"
    by code_simp
  from t1 l1 i1 have "fst (checkStubIssue ?g1 pr7) = (GetInt (issue_Number stub_titled), None)"
    by blast
  with v1 have k1: "fst (checkStubIssue ?g1 pr7) = (55, None)"
    by simp
  then have p1: "0 < fst (fst (checkStubIssue ?g1 pr7))"
    by simp
  from t1 p1 have n1: "\<forall>request. EvCreate request \<notin> set (events o1)"
    by blast
  have "case checkPullRequest unicode_excerpt 1 ?g2 stub_flags 0 Map.empty pr7 of
          Some (Inr out) \<Rightarrow> final out = prSkipped \<and> stub out = Some (56, None) | _ \<Rightarrow> False"
    by code_simp
  then obtain o2 where r2: "checkPullRequest unicode_excerpt 1 ?g2 stub_flags 0 Map.empty pr7 = Some (Inr o2)"
    and f2: "final o2 = prSkipped" and s2: "stub o2 = Some (56, None)"
    by (auto split: option.splits sum.splits)
  note t2 = find_before_create [OF r2]
  have l2: "ListByRepo ?g2 (GetString (repo_Owner_Login pr7)) (GetString (repo_Name pr7))
              (GetString (pr_User_Login pr7)) = Inr []"
    by code_simp
  have i2: "find (\<lambda>i. GetString (issue_Title i) = issueTitle (GetInt (pr_Number pr7))) [] = None"
    by simp
  have c2: "ListComments ?g2 (GetString (repo_Owner_Login pr7)) (GetString (repo_Name pr7))
              (GetInt (pr_Number pr7)) = Inr [stub_comment]"
    by code_simp
  have m2: "issueCommentRE (GetString (comment_Body stub_comment))
              = Some [''IssueBot here. I have filed issue #56 for you'', ''56'']"
    by code_simp
  then have j2: "find (\<lambda>c. issueCommentRE (GetString (comment_Body c)) \<noteq> None) [stub_comment]
                   = Some stub_comment"
    by simp
  have v2: "Atoi ([''IssueBot here. I have filed issue #56 for you'', ''56''] ! 1) = 56"
    by code_simp
  from t2 l2 i2 c2 j2 m2 have
    "fst (checkStubIssue ?g2 pr7)
       = (Atoi ([''IssueBot here. I have filed issue #56 for you'', ''56''] ! 1), None)"
    by blast
  with v2 have k2: "fst (checkStubIssue ?g2 pr7) = (56, None)"
    by simp
  then have p2: "0 < fst (fst (checkStubIssue ?g2 pr7))"
    by simp
  from t2 p2 have n2: "\<forall>request. EvCreate request \<notin> set (events o2)"
    by blast
  have "case checkPullRequest unicode_excerpt 1 ?g3 stub_flags 0 Map.empty pr7 of
          Some (Inr out) \<Rightarrow> final out = prSkipped \<and> stub out = Some (100, None) | _ \<Rightarrow> False"
    by code_simp
  then obtain o3 where r3: "checkPullRequest unicode_excerpt 1 ?g3 stub_flags 0 Map.empty pr7 = Some (Inr o3)"
    and f3: "final o3 = prSkipped" and s3: "stub o3 = Some (100, None)"
    by (auto split: option.splits sum.splits)
  note t3 = find_before_create [OF r3]
  have z3: "\<not> 0 < fst (fst (checkStubIssue ?g3 pr7))"
    by code_simp
  from t3 have
    b3: "\<forall>xs request ys. events o3 = xs @ EvCreate request # ys \<longrightarrow>
           (\<exists>assignee. EvListByRepo assignee \<in> set xs)"
    by blast
  from t3 f3 flags z3 have c3: "\<exists>request. EvCreate request \<in> set (events o3)"
    by blast
  have "case checkPullRequest unicode_excerpt 1 ?g4 stub_flags 0 Map.empty pr7 of
          Some (Inr out) \<Rightarrow> final out = prSkipped \<and> stub out = Some (100, None) | _ \<Rightarrow> False"
    by code_simp
  then obtain o4 where r4: "checkPullRequest unicode_excerpt 1 ?g4 stub_flags 0 Map.empty pr7 = Some (Inr o4)"
    and f4: "final o4 = prSkipped" and s4: "stub o4 = Some (100, None)"
    by (auto split: option.splits sum.splits)
  note t4 = find_before_create [OF r4]
  have z4: "\<not> 0 < fst (fst (checkStubIssue ?g4 pr7))"
    by code_simp
  from t4 f4 flags z4 have c4: "\<exists>request. EvCreate request \<in> set (events o4)"
    by blast
  have e1: "\<exists>out. checkPullRequest unicode_excerpt 1 ?g1 stub_flags 0 Map.empty pr7 = Some (Inr out) \<and>
          final out = prSkipped \<and> stub out = Some (55, None) \<and>
          (\<forall>request. EvCreate request \<notin> set (events out))"
    by (rule exI [of _ o1]) (intro conjI; fact)
  have e2: "\<exists>out. checkPullRequest unicode_excerpt 1 ?g2 stub_flags 0 Map.empty pr7 = Some (Inr out) \<and>
          final out = prSkipped \<and> stub out = Some (56, None) \<and>
          (\<forall>request. EvCreate request \<notin> set (events out))"
    by (rule exI [of _ o2]) (intro conjI; fact)
  have e3: "\<exists>out. checkPullRequest unicode_excerpt 1 ?g3 stub_flags 0 Map.empty pr7 = Some (Inr out) \<and>
          final out = prSkipped \<and> stub out = Some (100, None) \<and>
          (\<exists>request. EvCreate request \<in> set (events out)) \<and>
          (\<forall>xs request ys. events out = xs @ EvCreate request # ys \<longrightarrow>
             (\<exists>assignee. EvListByRepo assignee \<in> set xs))"
    by (rule exI [of _ o3]) (intro conjI; fact)
  have e4: "\<exists>out. checkPullRequest unicode_excerpt 1 ?g4 stub_flags 0 Map.empty pr7 = Some (Inr out) \<and>
          final out = prSkipped \<and> stub out = Some (100, None) \<and>
          (\<exists>request. EvCreate request \<in> set (events out))"
    by (rule exI [of _ o4]) (intro conjI; fact)
  from e1 k1 e2 k2 e3 e4 show ?thesis by (intro conjI)
qed

text \<open>Claim C10: when the evaluation reaches the stub step (the final disposition is Skipped
  and stub issues are enabled) and the existence check fails with an error, the engine
  goes on to create a stub issue, and the issue and the error it ends with are those of the
  creation: the error of the lookup is dropped. The existence check fails so when the call
  that lists the issues fails, and when no title matches and the call that lists the
  comments fails.\<close>

theorem lookup_failure_creates:
  "checkPullRequest U fuel cli cfg now m p = Some (Inr out) \<Longrightarrow>
   final out = prSkipped \<Longrightarrow> enableStubIssues cfg \<Longrightarrow>
   snd (fst (checkStubIssue cli p)) \<noteq> None \<Longrightarrow>
     (\<exists>request. EvCreate request \<in> set (events out)) \<and>
     stub out = Some (fst (createStubIssue cli p)) \<and>
     (\<forall>err. ListByRepo cli (GetString (repo_Owner_Login p)) (GetString (repo_Name p))
              (GetString (pr_User_Login p)) = Inl err \<longrightarrow>
        fst (checkStubIssue cli p) = (0, Some (''list issues: '' @ err))) \<and>
     (\<forall>issues err.
        ListByRepo cli (GetString (repo_Owner_Login p)) (GetString (repo_Name p))
          (GetString (pr_User_Login p)) = Inr issues \<and>
        find (\<lambda>i. GetString (issue_Title i) = issueTitle (GetInt (pr_Number p))) issues = None \<and>
        ListComments cli (GetString (repo_Owner_Login p)) (GetString (repo_Name p))
          (GetInt (pr_Number p)) = Inl err \<longrightarrow>
        fst (checkStubIssue cli p) = (0, Some (''list comments: '' @ err)))"
proof -
  assume run: "checkPullRequest U fuel cli cfg now m p = Some (Inr out)"
    and fin: "final out = prSkipped" and on: "enableStubIssues cfg"
    and err: "snd (fst (checkStubIssue cli p)) \<noteq> None"
  have ns: "\<not> skipped out"
  proof
    assume "skipped out"
    with run have "final out = prFailed"
      by (auto simp: checkPullRequest_def Let_def
          split: prod.splits bool.splits option.splits sum.splits if_splits)
    with fin show False by simp
  qed
  from checkPullRequest_Inr [OF run ns] obtain st :: scan_state and aevs where
    st0: "stub out = (if final out = prSkipped \<and> enableStubIssues cfg
                      then Some (fst (find_or_create_stub cli p)) else None)" and
    evs0: "events out = trace st @
             (if final out = prSkipped \<and> enableStubIssues cfg
              then snd (find_or_create_stub cli p) else []) @ aevs"
    by blast
  from st0 evs0 fin on have
    st: "stub out = Some (fst (find_or_create_stub cli p))" and
    evs: "events out = trace st @ snd (find_or_create_stub cli p) @ aevs"
    by simp_all
  from checkStubIssue_err [OF err] have
    foc: "find_or_create_stub cli p =
            (fst (createStubIssue cli p), snd (checkStubIssue cli p) @ snd (createStubIssue cli p))"
    by (simp add: find_or_create_stub_unfold)
  from createStubIssue_events [of cli p] obtain request rest where
    "snd (createStubIssue cli p) = EvCreate request # rest"
    by blast
  with evs foc have "EvCreate request \<in> set (events out)" by simp
  moreover from st foc have "stub out = Some (fst (createStubIssue cli p))" by simp
  moreover have "fst (checkStubIssue cli p) = (0, Some (''list issues: '' @ e))"
    if "ListByRepo cli (GetString (repo_Owner_Login p)) (GetString (repo_Name p))
              (GetString (pr_User_Login p)) = Inl e" for e
    using that by (simp add: checkStubIssue_def Let_def)
  moreover have "fst (checkStubIssue cli p) = (0, Some (''list comments: '' @ e))"
    if "ListByRepo cli (GetString (repo_Owner_Login p)) (GetString (repo_Name p))
          (GetString (pr_User_Login p)) = Inr issues"
       "find (\<lambda>i. GetString (issue_Title i) = issueTitle (GetInt (pr_Number p))) issues = None"
       "ListComments cli (GetString (repo_Owner_Login p)) (GetString (repo_Name p))
          (GetInt (pr_Number p)) = Inl e" for issues e
    using that by (simp add: checkStubIssue_def Let_def)
  ultimately show ?thesis by blast
qed

theorem lookup_failure_creates_witness:
  "\<exists>out. checkPullRequest unicode_excerpt 1 (paged_github [[commit_skip]] (Inl ''502 Bad Gateway'') (Inr []) 100)
            stub_flags 0 Map.empty pr7 = Some (Inr out) \<and>
         final out = prSkipped \<and>
         fst (checkStubIssue (paged_github [[commit_skip]] (Inl ''502 Bad Gateway'') (Inr []) 100) pr7)
           = (0, Some ''list issues: 502 Bad Gateway'') \<and>
         (\<exists>request. EvCreate request \<in> set (events out)) \<and>
         stub out = Some (100, None)"
proof -
  let ?g = "paged_github [[commit_skip]] (Inl ''502 Bad Gateway'') (Inr []) 100"
  have "case checkPullRequest unicode_excerpt 1 ?g stub_flags 0 Map.empty pr7 of
          Some (Inr out) \<Rightarrow> final out = prSkipped | _ \<Rightarrow> False"
    by code_simp
  then obtain out where run: "checkPullRequest unicode_excerpt 1 ?g stub_flags 0 Map.empty pr7 = Some (Inr out)"
    and fin: "final out = prSkipped"
    by (auto split: option.splits sum.splits)
  have on: "enableStubIssues stub_flags"
    by (simp add: stub_flags_def)
  have chk: "fst (checkStubIssue ?g pr7) = (0, Some ''list issues: 502 Bad Gateway'')"
    by code_simp
  then have err: "snd (fst (checkStubIssue ?g pr7)) \<noteq> None"
    by simp
  have cr: "fst (createStubIssue ?g pr7) = (100, None)"
    by code_simp
  from lookup_failure_creates [OF run fin on err] cr have
    a: "\<exists>request. EvCreate request \<in> set (events out)" and b: "stub out = Some (100, None)"
    by auto
  show ?thesis
    by (rule exI [of _ out]) (intro conjI; fact)
qed


end
